theory Spec2Isabelle
  imports Main "HOL-Library.Sublist"
begin

section \<open>Strings\<close>

text \<open>
  JavaScript strings are modelled as \<open>string\<close> (lists of 8-bit characters); the model
  covers ASCII text. \<open>toLowerCase\<close> maps \<open>A\<close>..\<open>Z\<close> to \<open>a\<close>..\<open>z\<close>, \<open>trim\<close> strips
  the ASCII white space characters (tab, line feed, vertical tab, form feed, carriage
  return, space) from both ends, \<open>includes_str hay needle\<close> is \<open>hay.includes(needle)\<close> and
  \<open>join_sp\<close> is \<open>Array.prototype.join(" ")\<close>.
\<close>

definition lower_char :: "char \<Rightarrow> char" where
  "lower_char c =
     (case map_of (zip ''ABCDEFGHIJKLMNOPQRSTUVWXYZ'' ''abcdefghijklmnopqrstuvwxyz'') c of
        None \<Rightarrow> c
      | Some d \<Rightarrow> d)"

definition toLowerCase :: "string \<Rightarrow> string" where
  "toLowerCase s = map lower_char s"

definition is_space :: "char \<Rightarrow> bool" where
  "is_space c = (c \<in> set [CHR 0x09, CHR 0x0A, CHR 0x0B, CHR 0x0C, CHR 0x0D, CHR '' ''])"

definition trim :: "string \<Rightarrow> string" where
  "trim s = rev (dropWhile is_space (rev (dropWhile is_space s)))"

fun includes_str :: "string \<Rightarrow> string \<Rightarrow> bool" where
  "includes_str [] needle = (needle = [])"
| "includes_str (c # cs) needle = (prefix needle (c # cs) \<or> includes_str cs needle)"

fun join_sp :: "string list \<Rightarrow> string" where
  "join_sp [] = []"
| "join_sp [x] = x"
| "join_sp (x # y # zs) = x @ '' '' @ join_sp (y # zs)"



text \<open>\<open>Boolean(x)\<close> for a string-or-undefined value, as used by \<open>.filter(Boolean)\<close>.\<close>

definition truthy :: "string option \<Rightarrow> bool" where
  "truthy a = (case a of None \<Rightarrow> False | Some x \<Rightarrow> x \<noteq> [])"

section \<open>Data model of \<open>tech-pulse/src/App.jsx\<close>\<close>

text \<open>The column types: the keys \<open>hn\<close>, \<open>reddit\<close>, \<open>nasa\<close>, \<open>quote\<close> of \<open>SOURCE_META\<close>.\<close>

datatype source_type = HN | Reddit | NASA | Quote

text \<open>
  A normalized item as the API clients build it. Only the fields that the controller,
  the view projection and the URL validation read are kept (\<open>date\<close>, \<open>score\<close> and
  \<open>comments\<close> are display data that no function modelled here inspects). A field that
  some client leaves out (\<open>undefined\<close>) is an \<open>option\<close>.
\<close>

record item =
  item_id :: string
  source :: source_type
  title :: string
  url :: "string option"
  summary :: string
  author :: string
  host :: string
  subreddit :: "string option"
  imageUrl :: "string option"
  tags :: "string list option"

text \<open>An entry \<open>{ id, type }\<close> of the \<open>columns\<close> state.\<close>

record column =
  col_id :: string
  col_type :: source_type

text \<open>
  An entry of the \<open>store\<close> state. Every object the code puts into the store sets
  \<open>loading\<close> and \<open>error\<close>; the other fields are absent (\<open>None\<close>) when the object was
  built by spreading an undefined entry, and \<open>after: null\<close> is \<open>None\<close> as well (the code
  reads it through \<open>?? null\<close>).
\<close>

record col_state =
  items :: "item list option"
  loading :: bool
  error :: string
  page :: "nat option"
  after :: "string option"
  hasMore :: "bool option"

type_synonym store = "string \<rightharpoonup> col_state"

section \<open>View projection: \<open>visibleByColumn\<close>\<close>

text \<open>
  The text a card is searched in:
  \<open>[it.title, it.summary, it.author, it.subreddit, it.host, (it.tags || []).join(" ")]
   .filter(Boolean).join(" ").toLowerCase()\<close>.
\<close>

definition haystack :: "item \<Rightarrow> string" where
  "haystack it =
     toLowerCase (join_sp (map the (filter truthy
       [Some (title it), Some (summary it), Some (author it), subreddit it, Some (host it),
        Some (join_sp (case tags it of None \<Rightarrow> [] | Some ts \<Rightarrow> ts))])))"

text \<open>\<open>store[c.id]?.items || []\<close>\<close>

definition bucket :: "store \<Rightarrow> string \<Rightarrow> item list" where
  "bucket st cid =
     (case st cid of
        None \<Rightarrow> []
      | Some e \<Rightarrow> (case items e of None \<Rightarrow> [] | Some xs \<Rightarrow> xs))"

text \<open>
  The memoized \<open>visibleByColumn\<close>: the loop over \<open>columns\<close> fills the object \<open>out\<close>,
  keyed by column id.
\<close>

definition visibleByColumn :: "column list \<Rightarrow> store \<Rightarrow> string \<Rightarrow> (string \<rightharpoonup> item list)" where
  "visibleByColumn cols st globalSearch =
     (let s = toLowerCase (trim globalSearch) in
      fold (\<lambda>c out.
              out(col_id c \<mapsto>
                (if s = [] then bucket st (col_id c)
                 else filter (\<lambda>it. includes_str (haystack it) s) (bucket st (col_id c)))))
        cols Map.empty)"

text \<open>
  The projection in the words of the specification, for comparison: an empty filter text
  passes the buffer through; otherwise an item stays exactly when the lower-cased
  concatenation of title, summary, author and tags contains the lower-cased filter text.
\<close>

definition spec_haystack :: "item \<Rightarrow> string" where
  "spec_haystack it =
     toLowerCase (title it @ summary it @ author it
                  @ concat (case tags it of None \<Rightarrow> [] | Some ts \<Rightarrow> ts))"

definition spec_project :: "column list \<Rightarrow> store \<Rightarrow> string \<Rightarrow> (string \<rightharpoonup> item list)" where
  "spec_project cols st txt =
     (\<lambda>cid. if cid \<in> col_id ` set cols
            then Some (if txt = [] then bucket st cid
                       else filter (\<lambda>it. sublist (toLowerCase txt) (spec_haystack it))
                              (bucket st cid))
            else None)"

section \<open>URL validation: \<open>safeUrl\<close>\<close>




















section \<open>API clients\<close>

text \<open>
  What the transport delivers for one request: the \<open>fetch\<close> promise rejects (network
  failure), or a response with an HTTP status arrives whose body \<open>res.json()\<close> parses
  (\<open>Some\<close>) or not (\<open>None\<close>). The body holds what the clients read from the JSON, after
  their \<open>.map\<close> normalization: \<open>hits\<close> is \<open>(data.hits || []).map(...)\<close> and \<open>nbPages\<close>
  is \<open>data.nbPages\<close> when it is a number; \<open>children\<close> is the mapped
  \<open>data?.data?.children || []\<close> and \<open>after_token\<close> is \<open>data?.data?.after\<close>; \<open>single\<close>
  is the one item that \<open>fetchNASA\<close> or \<open>fetchQuote\<close> builds.
\<close>

record body =
  hits :: "item list"
  nbPages :: "int option"
  children :: "item list"
  after_token :: "string option"
  single :: item

datatype response = NetworkFailure | Http nat "body option"

datatype js_error =
  ReferenceError | TypeError | AbortError | SyntaxError | RequestFailed source_type nat

text \<open>\<open>res.ok\<close>: the status is in the range 200--299.\<close>

definition ok :: "nat \<Rightarrow> bool" where
  "ok status = (200 \<le> status \<and> status \<le> 299)"

record hn_result =
  hn_items :: "item list"
  nextPage :: nat
  hn_hasMore :: bool

record reddit_result =
  rd_items :: "item list"
  nextAfter :: "string option"
  rd_hasMore :: bool

record single_result =
  sg_items :: "item list"
  sg_hasMore :: bool

text \<open>\<open>fetchHN\<close>, from the response on: \<open>if (!res.ok) throw\<close>, then
  \<open>hasMore = typeof data.nbPages === "number" ? page + 1 < data.nbPages : false\<close> and
  \<open>return { items, nextPage: page + 1, hasMore }\<close>.\<close>

definition fetchHN :: "nat \<Rightarrow> response \<Rightarrow> js_error + hn_result" where
  "fetchHN pg r =
     (case r of
        NetworkFailure \<Rightarrow> Inl TypeError
      | Http status b \<Rightarrow>
          if \<not> ok status then Inl (RequestFailed HN status)
          else (case b of
                  None \<Rightarrow> Inl SyntaxError
                | Some data \<Rightarrow>
                    Inr \<lparr>hn_items = hits data, nextPage = pg + 1,
                         hn_hasMore = (case nbPages data of
                                         Some n \<Rightarrow> int (pg + 1) < n
                                       | None \<Rightarrow> False)\<rparr>))"

text \<open>\<open>fetchReddit\<close>, from the response on: the client-side filter by
  \<open>q = (query || "").trim().toLowerCase()\<close> over
  \<open>`${it.title} ${it.summary} ${it.subreddit}`.toLowerCase()\<close>, then
  \<open>nextAfter = data?.data?.after || null\<close> and \<open>hasMore: Boolean(nextAfter)\<close>.\<close>

definition reddit_text :: "item \<Rightarrow> string" where
  "reddit_text it =
     toLowerCase (title it @ '' '' @ summary it @ '' ''
                  @ (case subreddit it of None \<Rightarrow> ''undefined'' | Some x \<Rightarrow> x))"

definition fetchReddit :: "string \<Rightarrow> response \<Rightarrow> js_error + reddit_result" where
  "fetchReddit query r =
     (case r of
        NetworkFailure \<Rightarrow> Inl TypeError
      | Http status b \<Rightarrow>
          if \<not> ok status then Inl (RequestFailed Reddit status)
          else (case b of
                  None \<Rightarrow> Inl SyntaxError
                | Some data \<Rightarrow>
                    (let q = toLowerCase (trim query);
                         mapped = (if q \<noteq> []
                                   then filter (\<lambda>it. includes_str (reddit_text it) q) (children data)
                                   else children data);
                         na = (if truthy (after_token data) then after_token data else None)
                     in Inr \<lparr>rd_items = mapped, nextAfter = na, rd_hasMore = (na \<noteq> None)\<rparr>)))"

text \<open>\<open>fetchNASA\<close> and \<open>fetchQuote\<close>, from the response on: \<open>if (!res.ok) throw\<close>, else
  one item and \<open>hasMore: false\<close>.\<close>

definition fetchNASA :: "response \<Rightarrow> js_error + single_result" where
  "fetchNASA r =
     (case r of
        NetworkFailure \<Rightarrow> Inl TypeError
      | Http status b \<Rightarrow>
          if \<not> ok status then Inl (RequestFailed NASA status)
          else (case b of
                  None \<Rightarrow> Inl SyntaxError
                | Some d \<Rightarrow> Inr \<lparr>sg_items = [single d], sg_hasMore = False\<rparr>))"

definition fetchQuote :: "response \<Rightarrow> js_error + single_result" where
  "fetchQuote r =
     (case r of
        NetworkFailure \<Rightarrow> Inl TypeError
      | Http status b \<Rightarrow>
          if \<not> ok status then Inl (RequestFailed Quote status)
          else (case b of
                  None \<Rightarrow> Inl SyntaxError
                | Some q \<Rightarrow> Inr \<lparr>sg_items = [single q], sg_hasMore = False\<rparr>))"

section \<open>The controller: the \<open>App\<close> component's state and handlers\<close>

datatype mode = Refresh | More

text \<open>
  A request in flight: an \<open>await fetchX(...)\<close> of \<open>loadColumn\<close> that has not settled.
  It keeps what the suspended call captured: the column id, the mode, the arguments of
  the client (the page for \<open>fetchHN\<close>; the query and the \<open>after\<close> token for
  \<open>fetchReddit\<close>) and the \<open>signal\<close> passed to \<open>fetch\<close>, the address of an
  \<open>AbortController\<close> or \<open>None\<close> for \<open>undefined\<close>.
\<close>

datatype req_kind = HNReq nat | RedditReq string "string option" | QuoteReq

record request =
  req_col :: string
  req_mode :: mode
  req_kind :: req_kind
  req_signal :: "nat option"

text \<open>
  The state of the component: the \<open>useState\<close> cells \<open>columns\<close>, \<open>store\<close> and \<open>hnQuery\<close>
  (\<open>hnDaysBack\<close> only goes into the request URL and \<open>globalSearch\<close> is an argument of
  the view), the \<open>abortRef\<close> cell, the heap of \<open>AbortController\<close> objects (\<open>ctls ! a\<close> is
  the \<open>aborted\<close> flag of the controller at address \<open>a\<close>) and the requests in flight
  (\<open>reqs ! r = None\<close> once request \<open>r\<close> has settled). Handlers are taken to run on the
  latest rendered state, and a \<open>setStore\<close> updater to apply at once.
\<close>

record state =
  columns :: "column list"
  store :: store
  hnQuery :: string
  abortRef :: "nat option"
  ctls :: "bool list"
  reqs :: "request option list"

text \<open>The initial \<open>useState\<close> values.\<close>

definition hn_initial :: col_state where
  "hn_initial = \<lparr>items = Some [], loading = False, error = [], page = Some 0,
                  after = None, hasMore = Some True\<rparr>"

definition reddit_initial :: col_state where
  "reddit_initial = \<lparr>items = Some [], loading = False, error = [], page = None,
                      after = None, hasMore = Some True\<rparr>"

definition single_initial :: col_state where
  "single_initial = \<lparr>items = Some [], loading = False, error = [], page = None,
                      after = None, hasMore = Some False\<rparr>"

definition initial_entry :: "source_type \<Rightarrow> col_state" where
  "initial_entry t = (case t of HN \<Rightarrow> hn_initial | Reddit \<Rightarrow> reddit_initial
                      | NASA \<Rightarrow> single_initial | Quote \<Rightarrow> single_initial)"

definition initial_state :: state where
  "initial_state =
     \<lparr>columns = [\<lparr>col_id = ''col_hn'', col_type = HN\<rparr>,
                 \<lparr>col_id = ''col_reddit'', col_type = Reddit\<rparr>,
                 \<lparr>col_id = ''col_nasa'', col_type = NASA\<rparr>],
      store = [''col_hn'' \<mapsto> hn_initial, ''col_reddit'' \<mapsto> reddit_initial,
               ''col_nasa'' \<mapsto> single_initial],
      hnQuery = [], abortRef = None, ctls = [], reqs = []\<rparr>"

text \<open>The effect on \<open>[columns]\<close>: "Ensure store exists for newly added columns".\<close>

definition ensureStore :: "state \<Rightarrow> state" where
  "ensureStore s =
     s\<lparr>store := fold (\<lambda>c next. if next (col_id c) = None
                                then next(col_id c \<mapsto> initial_entry (col_type c))
                                else next)
                   (columns s) (store s)\<rparr>"

text \<open>\<open>removeColumn\<close> and \<open>addColumn\<close>; the six hexadecimal digits of
  \<open>Math.random().toString(16).slice(2, 8)\<close> are the argument \<open>rnd\<close>. Both change
  \<open>columns\<close>, so the effect above runs after them.\<close>

definition removeColumn :: "state \<Rightarrow> string \<Rightarrow> state" where
  "removeColumn s cid = s\<lparr>columns := filter (\<lambda>c. col_id c \<noteq> cid) (columns s)\<rparr>"

definition type_name :: "source_type \<Rightarrow> string" where
  "type_name t = (case t of HN \<Rightarrow> ''hn'' | Reddit \<Rightarrow> ''reddit'' | NASA \<Rightarrow> ''nasa''
                  | Quote \<Rightarrow> ''quote'')"

definition addColumn :: "state \<Rightarrow> source_type \<Rightarrow> string \<Rightarrow> state" where
  "addColumn s t rnd =
     s\<lparr>columns := columns s @ [\<lparr>col_id = ''col_'' @ type_name t @ ''_'' @ rnd, col_type = t\<rparr>]\<rparr>"

text \<open>\<open>{ ...p[colId] }\<close>: spreading an undefined entry gives an object without fields
  (\<open>loading\<close> and \<open>error\<close> are set by every spread of the code).\<close>

definition spread :: "store \<Rightarrow> string \<Rightarrow> col_state" where
  "spread p cid =
     (case p cid of
        Some e \<Rightarrow> e
      | None \<Rightarrow> \<lparr>items = None, loading = False, error = [], page = None, after = None,
                  hasMore = None\<rparr>)"

text \<open>The first \<open>setStore\<close> of \<open>loadColumn\<close> and the one of its \<open>catch\<close>.\<close>

definition set_loading :: "store \<Rightarrow> string \<Rightarrow> store" where
  "set_loading p cid = p(cid \<mapsto> (spread p cid)\<lparr>loading := True, error := []\<rparr>)"

definition catch_msg :: "source_type \<Rightarrow> string" where
  "catch_msg t =
     (if t = Reddit
      then ''Could not load Reddit items. If you see a CORS error locally, try a different network or deploy (CORS often differs locally vs hosted).''
      else ''Could not load content. Try Refresh.'')"

definition set_error :: "store \<Rightarrow> string \<Rightarrow> string \<Rightarrow> store" where
  "set_error p cid msg = p(cid \<mapsto> (spread p cid)\<lparr>loading := False, error := msg\<rparr>)"

text \<open>
  The statement between the \<open>reddit\<close> and the \<open>quote\<close> branch of \<open>loadColumn\<close>,
  \<open>if (!res.ok) { return { items: [{ id: "nasa_fallback", ... }], hasMore: false }; }\<close>.
  The \<open>const res\<close> of the two branches before it are local to their blocks, and neither
  the function nor the module declares another \<open>res\<close>: no binding is in scope
  (\<open>res_binding\<close>), so evaluating \<open>res\<close> throws a \<open>ReferenceError\<close>.
\<close>

definition nasa_fallback :: item where
  "nasa_fallback =
     \<lparr>item_id = ''nasa_fallback'', source = NASA,
      title = ''NASA APOD temporarily unavailable'', url = None,
      summary = ''Rate limit reached. Please refresh later.'', author = ''NASA'',
      host = ''api.nasa.gov'', subreddit = None, imageUrl = Some [], tags = None\<rparr>"

datatype completion = Throws js_error | Returns single_result | FallsThrough

definition res_binding :: "nat option" where
  "res_binding = None"

definition stray_block :: completion where
  "stray_block =
     (case res_binding of
        None \<Rightarrow> Throws ReferenceError
      | Some status \<Rightarrow>
          if \<not> ok status then Returns \<lparr>sg_items = [nasa_fallback], sg_hasMore = False\<rparr>
          else FallsThrough)"

text \<open>\<open>abortRef.current?.signal\<close> is aborted when its controller is.\<close>

definition signal_aborted :: "state \<Rightarrow> nat option \<Rightarrow> bool" where
  "signal_aborted s sg =
     (case sg of None \<Rightarrow> False | Some a \<Rightarrow> a < length (ctls s) \<and> ctls s ! a)"

definition dispatch :: "state \<Rightarrow> request \<Rightarrow> state" where
  "dispatch s q = s\<lparr>reqs := reqs s @ [Some q]\<rparr>"

text \<open>
  \<open>loadColumn(colId, mode)\<close> up to its first \<open>await\<close>. For an \<open>hn\<close> or \<open>reddit\<close> column
  it ends with a request in flight. For the other types control reaches the stray
  statement; what follows it is the \<open>catch\<close>, the \<open>return\<close> of the fallback object
  (which no caller reads) or the \<open>quote\<close> branch.
\<close>

definition loadColumn :: "state \<Rightarrow> string \<Rightarrow> mode \<Rightarrow> state" where
  "loadColumn s colId m =
     (case find (\<lambda>c. col_id c = colId) (columns s) of
        None \<Rightarrow> s
      | Some col \<Rightarrow>
          (let s1 = s\<lparr>store := set_loading (store s) colId\<rparr> in
           case col_type col of
             HN \<Rightarrow>
               (let currentPage =
                      (if m = More
                       then (case store s colId of
                               None \<Rightarrow> 0
                             | Some e \<Rightarrow> (case page e of None \<Rightarrow> 0 | Some n \<Rightarrow> n))
                       else 0)
                in dispatch s1 \<lparr>req_col = colId, req_mode = m, req_kind = HNReq currentPage,
                                req_signal = abortRef s\<rparr>)
           | Reddit \<Rightarrow>
               (let aft = (if m = More
                           then (case store s colId of None \<Rightarrow> None | Some e \<Rightarrow> after e)
                           else None)
                in dispatch s1 \<lparr>req_col = colId, req_mode = m,
                                req_kind = RedditReq (hnQuery s) aft,
                                req_signal = abortRef s\<rparr>)
           | t \<Rightarrow>
               (case stray_block of
                  Throws e \<Rightarrow> s1\<lparr>store := set_error (store s1) colId (catch_msg t)\<rparr>
                | Returns v \<Rightarrow> s1
                | FallsThrough \<Rightarrow>
                    if t = Quote
                    then dispatch s1 \<lparr>req_col = colId, req_mode = m, req_kind = QuoteReq,
                                      req_signal = abortRef s\<rparr>
                    else s1)))"

text \<open>
  What \<open>await fetchX(...)\<close> yields for a request in flight. The transport honours the
  abort signal: once the signal is aborted, \<open>fetch\<close> (or the pending \<open>res.json()\<close>)
  rejects with an \<open>AbortError\<close>, whatever the server sent.
\<close>

datatype fetched = HNRes hn_result | RedditRes reddit_result | QuoteRes single_result

definition await_fetch :: "state \<Rightarrow> request \<Rightarrow> response \<Rightarrow> js_error + fetched" where
  "await_fetch s q r =
     (if signal_aborted s (req_signal q) then Inl AbortError
      else (case req_kind q of
              HNReq pg \<Rightarrow> map_sum id HNRes (fetchHN pg r)
            | RedditReq query aft \<Rightarrow> map_sum id RedditRes (fetchReddit query r)
            | QuoteReq \<Rightarrow> map_sum id QuoteRes (fetchQuote r)))"

text \<open>\<open>prevItems = mode === "more" ? p[colId].items : []\<close> followed by
  \<open>[...prevItems, ...res.items]\<close>: reading \<open>items\<close> of an undefined entry and spreading
  an undefined \<open>items\<close> both throw a \<open>TypeError\<close> inside the updater.\<close>

definition prevItems :: "store \<Rightarrow> string \<Rightarrow> mode \<Rightarrow> js_error + item list" where
  "prevItems p cid m =
     (if m = More
      then (case p cid of
              None \<Rightarrow> Inl TypeError
            | Some e \<Rightarrow> (case items e of None \<Rightarrow> Inl TypeError | Some xs \<Rightarrow> Inr xs))
      else Inr [])"

definition kind_type :: "req_kind \<Rightarrow> source_type" where
  "kind_type k = (case k of HNReq pg \<Rightarrow> HN | RedditReq query aft \<Rightarrow> Reddit | QuoteReq \<Rightarrow> Quote)"

text \<open>
  The rest of \<open>loadColumn\<close> after the \<open>await\<close>, run when the transport settles request
  \<open>r\<close> with \<open>resp\<close>: the \<open>setStore\<close> of the branch on success, the \<open>catch\<close> on any
  exception of the client. An exception inside a \<open>setStore\<close> updater is not caught by
  \<open>loadColumn\<close> (\<open>Inl\<close>). Settling a request that is not in flight does nothing.
\<close>

definition settle :: "state \<Rightarrow> nat \<Rightarrow> response \<Rightarrow> js_error + state" where
  "settle s r resp =
     (if r < length (reqs s)
      then (case reqs s ! r of
              None \<Rightarrow> Inr s
            | Some q \<Rightarrow>
                (let s0 = s\<lparr>reqs := (reqs s)[r := None]\<rparr>;
                     cid = req_col q
                 in case await_fetch s q resp of
                      Inl e \<Rightarrow>
                        Inr (s0\<lparr>store := set_error (store s) cid (catch_msg (kind_type (req_kind q)))\<rparr>)
                    | Inr (HNRes res) \<Rightarrow>
                        (case prevItems (store s) cid (req_mode q) of
                           Inl e \<Rightarrow> Inl e
                         | Inr prev \<Rightarrow>
                             Inr (s0\<lparr>store := (store s)(cid \<mapsto>
                                    (spread (store s) cid)
                                      \<lparr>items := Some (prev @ hn_items res), loading := False,
                                       error := [], page := Some (nextPage res),
                                       hasMore := Some (hn_hasMore res)\<rparr>)\<rparr>))
                    | Inr (RedditRes res) \<Rightarrow>
                        (case prevItems (store s) cid (req_mode q) of
                           Inl e \<Rightarrow> Inl e
                         | Inr prev \<Rightarrow>
                             Inr (s0\<lparr>store := (store s)(cid \<mapsto>
                                    (spread (store s) cid)
                                      \<lparr>items := Some (prev @ rd_items res), loading := False,
                                       error := [], after := nextAfter res,
                                       hasMore := Some (rd_hasMore res)\<rparr>)\<rparr>))
                    | Inr (QuoteRes res) \<Rightarrow>
                        Inr (s0\<lparr>store := (store s)(cid \<mapsto>
                               (spread (store s) cid)
                                 \<lparr>items := Some (sg_items res), loading := False,
                                  error := [], hasMore := Some False\<rparr>)\<rparr>)))
      else Inr s)"

text \<open>The reset of one column at the start of \<open>refreshAll\<close>: \<open>if (!next[c.id]) continue\<close>,
  then one assignment by type.\<close>

definition reset_column :: "column \<Rightarrow> store \<Rightarrow> store" where
  "reset_column c next =
     (case next (col_id c) of
        None \<Rightarrow> next
      | Some e \<Rightarrow>
          (case col_type c of
             HN \<Rightarrow> next(col_id c \<mapsto> e\<lparr>items := Some [], page := Some 0, hasMore := Some True,
                                     error := [], loading := True\<rparr>)
           | Reddit \<Rightarrow> next(col_id c \<mapsto> e\<lparr>items := Some [], after := None,
                                         hasMore := Some True, error := [], loading := True\<rparr>)
           | t \<Rightarrow> next(col_id c \<mapsto> e\<lparr>items := Some [], error := [], loading := True,
                                    hasMore := Some False\<rparr>)))"

text \<open>\<open>refreshAll\<close>: abort the controller in \<open>abortRef\<close>, put a new one there, reset the
  store, and call \<open>loadColumn(c.id, "refresh")\<close> for every column, each up to its
  \<open>await\<close>.\<close>

definition refreshAll :: "state \<Rightarrow> state" where
  "refreshAll s =
     (let aborted = (case abortRef s of None \<Rightarrow> ctls s | Some a \<Rightarrow> (ctls s)[a := True]);
          s1 = s\<lparr>ctls := aborted @ [False], abortRef := Some (length aborted)\<rparr>;
          s2 = s1\<lparr>store := fold reset_column (columns s) (store s)\<rparr>
      in fold (\<lambda>c st. loadColumn st (col_id c) Refresh) (columns s) s2)"

text \<open>
  The "Load More" control of \<open>ColumnShell\<close>: rendered for a column of \<open>columns\<close> when
  \<open>Boolean(store[c.id]?.hasMore)\<close>, \<open>disabled\<close> when \<open>Boolean(store[c.id]?.loading)\<close>; its
  \<open>onClick\<close> is \<open>loadColumn(c.id, "more")\<close>.
\<close>

definition loadMore_enabled :: "state \<Rightarrow> string \<Rightarrow> bool" where
  "loadMore_enabled s cid =
     (cid \<in> col_id ` set (columns s)
      \<and> (case store s cid of
           None \<Rightarrow> False
         | Some e \<Rightarrow> hasMore e = Some True \<and> \<not> loading e))"

definition clickLoadMore :: "state \<Rightarrow> string \<Rightarrow> state" where
  "clickLoadMore s cid = (if loadMore_enabled s cid then loadColumn s cid More else s)"

text \<open>The events of the component and a run of a list of them; a run stops at an
  uncaught exception. The component mounts by running its two effects.\<close>

datatype event =
    RefreshAll
  | LoadColumn string mode
  | ClickLoadMore string
  | RemoveColumn string
  | AddColumn source_type string
  | SetQuery string
  | Settle nat response

definition step :: "event \<Rightarrow> state \<Rightarrow> js_error + state" where
  "step e s =
     (case e of
        RefreshAll \<Rightarrow> Inr (refreshAll s)
      | LoadColumn cid m \<Rightarrow> Inr (loadColumn s cid m)
      | ClickLoadMore cid \<Rightarrow> Inr (clickLoadMore s cid)
      | RemoveColumn cid \<Rightarrow> Inr (ensureStore (removeColumn s cid))
      | AddColumn t rnd \<Rightarrow> Inr (ensureStore (addColumn s t rnd))
      | SetQuery q \<Rightarrow> Inr (s\<lparr>hnQuery := q\<rparr>)
      | Settle r resp \<Rightarrow> settle s r resp)"

fun run :: "event list \<Rightarrow> state \<Rightarrow> js_error + state" where
  "run [] s = Inr s"
| "run (e # es) s = (case step e s of Inl x \<Rightarrow> Inl x | Inr s' \<Rightarrow> run es s')"

definition mounted :: state where
  "mounted = refreshAll (ensureStore initial_state)"

text \<open>\<open>store[c.id]?.items\<close>, \<open>store[c.id]?.error || ""\<close> and \<open>Boolean(store[c.id]?.loading)\<close>,
  as \<open>ColumnShell\<close> receives them.\<close>

definition items_of :: "state \<Rightarrow> string \<Rightarrow> item list option" where
  "items_of s cid = (case store s cid of None \<Rightarrow> None | Some e \<Rightarrow> items e)"

definition error_of :: "state \<Rightarrow> string \<Rightarrow> string" where
  "error_of s cid = (case store s cid of None \<Rightarrow> [] | Some e \<Rightarrow> error e)"

definition loading_of :: "state \<Rightarrow> string \<Rightarrow> bool" where
  "loading_of s cid = (case store s cid of None \<Rightarrow> False | Some e \<Rightarrow> loading e)"

section \<open>Observations of the state\<close>

text \<open>The buffer, the cursor (\<open>page\<close> and \<open>after\<close>) and \<open>hasMore\<close> of a column, read with
  optional chaining (\<open>store[cid]?.items\<close> and so on), and \<open>Boolean(store[cid]?.hasMore)\<close>.\<close>

definition data_of ::
  "state \<Rightarrow> string \<Rightarrow> item list option \<times> nat option \<times> string option \<times> bool option" where
  "data_of s cid =
     (case store s cid of
        None \<Rightarrow> (None, None, None, None)
      | Some e \<Rightarrow> (items e, page e, after e, hasMore e))"

definition hasMore_of :: "state \<Rightarrow> string \<Rightarrow> bool" where
  "hasMore_of s cid = (case store s cid of None \<Rightarrow> False | Some e \<Rightarrow> hasMore e = Some True)"

text \<open>\<open>res.items\<close> of what a client returned.\<close>

definition fetched_items :: "fetched \<Rightarrow> item list" where
  "fetched_items f =
     (case f of HNRes res \<Rightarrow> hn_items res | RedditRes res \<Rightarrow> rd_items res
      | QuoteRes res \<Rightarrow> sg_items res)"

text \<open>Request \<open>r\<close> is in flight as \<open>q\<close>; no request is in flight.\<close>

definition in_flight :: "state \<Rightarrow> nat \<Rightarrow> request \<Rightarrow> bool" where
  "in_flight s r q = (r < length (reqs s) \<and> reqs s ! r = Some q)"

definition idle :: "state \<Rightarrow> bool" where
  "idle s = list_all (\<lambda>q. q = None) (reqs s)"

text \<open>The requests that one call of \<open>loadColumn\<close> starts.\<close>

definition started :: "state \<Rightarrow> string \<Rightarrow> mode \<Rightarrow> request option list" where
  "started s cid m =
     (case find (\<lambda>c. col_id c = cid) (columns s) of
        None \<Rightarrow> []
      | Some col \<Rightarrow>
          (case col_type col of
             HN \<Rightarrow> [Some \<lparr>req_col = cid, req_mode = m,
                          req_kind = HNReq (if m = More
                                            then (case store s cid of None \<Rightarrow> 0
                                                  | Some e \<Rightarrow> (case page e of None \<Rightarrow> 0 | Some n \<Rightarrow> n))
                                            else 0),
                          req_signal = abortRef s\<rparr>]
           | Reddit \<Rightarrow> [Some \<lparr>req_col = cid, req_mode = m,
                              req_kind = RedditReq (hnQuery s)
                                 (if m = More
                                  then (case store s cid of None \<Rightarrow> None | Some e \<Rightarrow> after e)
                                  else None),
                              req_signal = abortRef s\<rparr>]
           | t \<Rightarrow> []))"

text \<open>The state in which \<open>refreshAll\<close> starts its \<open>loadColumn\<close> calls: the old controller
  aborted, the new one in \<open>abortRef\<close>, the store reset.\<close>

definition armed :: "state \<Rightarrow> state" where
  "armed s =
     s\<lparr>ctls := (case abortRef s of None \<Rightarrow> ctls s | Some a \<Rightarrow> (ctls s)[a := True]) @ [False],
       abortRef := Some (length (ctls s)),
       store := fold reset_column (columns s) (store s)\<rparr>"

text \<open>Request \<open>r\<close> can no longer deliver a response: it has settled, or its signal is
  aborted.\<close>

definition cancelled :: "state \<Rightarrow> nat \<Rightarrow> bool" where
  "cancelled s r =
     (r < length (reqs s)
      \<and> (case reqs s ! r of None \<Rightarrow> True | Some q \<Rightarrow> signal_aborted s (req_signal q)))"

text \<open>From \<open>s\<close> to \<open>s'\<close> no request was revived and no controller was reset.\<close>

definition later :: "state \<Rightarrow> state \<Rightarrow> bool" where
  "later s s' =
     (length (reqs s) \<le> length (reqs s')
      \<and> (\<forall>r < length (reqs s). reqs s' ! r = reqs s ! r \<or> reqs s' ! r = None)
      \<and> length (ctls s) \<le> length (ctls s')
      \<and> (\<forall>a < length (ctls s). ctls s ! a \<longrightarrow> ctls s' ! a))"

text \<open>Every request in flight is a refresh; no column has two requests in flight.\<close>

definition all_refresh :: "state \<Rightarrow> bool" where
  "all_refresh s = (\<forall>r q. in_flight s r q \<longrightarrow> req_mode q = Refresh)"

definition one_per_column :: "state \<Rightarrow> bool" where
  "one_per_column s =
     (\<forall>r r' q q'. in_flight s r q \<longrightarrow> in_flight s r' q' \<longrightarrow> req_col q = req_col q' \<longrightarrow> r = r')"

section \<open>Scenarios\<close>

text \<open>The transport settles the listed requests, in the order of the list.\<close>

definition settles :: "(nat \<times> response) list \<Rightarrow> event list" where
  "settles rs = map (\<lambda>(r, resp). Settle r resp) rs"

text \<open>A refresh of one column (the "Refresh" control of \<open>ColumnShell\<close>) whose request
  settles with \<open>resp0\<close>, then \<open>loadColumn(cid, "more")\<close> whose request settles with
  \<open>resp1\<close>.\<close>

definition refresh_then_more :: "state \<Rightarrow> string \<Rightarrow> response \<Rightarrow> response \<Rightarrow> js_error + state" where
  "refresh_then_more s cid resp0 resp1 =
     run [LoadColumn cid Refresh, Settle (length (reqs s)) resp0,
          LoadColumn cid More, Settle (Suc (length (reqs s))) resp1] s"

section \<open>Concrete inputs used by the examples\<close>

definition github_item :: item where
  "github_item =
     \<lparr>item_id = ''hn_1'', source = HN, title = ''Show'', url = Some ''https://github.com/x'',
      summary = [], author = ''bob'', host = ''github.com'', subreddit = None,
      imageUrl = None, tags = None\<rparr>"

definition moon_item :: item where
  "moon_item =
     \<lparr>item_id = ''hn_2'', source = HN, title = ''Moon'', url = Some ''https://example.org/'',
      summary = ''A story'', author = ''ann'', host = ''example.org'', subreddit = None,
      imageUrl = None, tags = None\<rparr>"


definition one_column :: "column list" where
  "one_column = [\<lparr>col_id = ''c'', col_type = HN\<rparr>]"

definition one_store :: store where
  "one_store = [''c'' \<mapsto> hn_initial\<lparr>items := Some [github_item, moon_item]\<rparr>]"

definition hn_column :: column where
  "hn_column = \<lparr>col_id = ''col_hn'', col_type = HN\<rparr>"

definition nasa_column :: column where
  "nasa_column = \<lparr>col_id = ''col_nasa'', col_type = NASA\<rparr>"

text \<open>Two successful responses, and what \<open>fetchHN\<close> returns for them as pages 0 and 1.\<close>

definition page0_response :: response where
  "page0_response =
     Http 200 (Some \<lparr>hits = [github_item], nbPages = Some 2, children = [github_item],
                     after_token = Some ''t3_a'', single = github_item\<rparr>)"

definition page1_response :: response where
  "page1_response =
     Http 200 (Some \<lparr>hits = [moon_item], nbPages = Some 2, children = [moon_item],
                     after_token = None, single = moon_item\<rparr>)"

definition page0_result :: hn_result where
  "page0_result = \<lparr>hn_items = [github_item], nextPage = 1, hn_hasMore = True\<rparr>"

definition page1_result :: hn_result where
  "page1_result = \<lparr>hn_items = [moon_item], nextPage = 2, hn_hasMore = False\<rparr>"

text \<open>The requests that the first \<open>refreshAll\<close> starts for the \<open>hn\<close> and the \<open>reddit\<close>
  column, a second request for the \<open>hn\<close> column started while the first is in flight,
  and the load-more request for page 1.\<close>

definition first_request :: request where
  "first_request = \<lparr>req_col = ''col_hn'', req_mode = Refresh, req_kind = HNReq 0, req_signal = Some 0\<rparr>"

definition reddit_request :: request where
  "reddit_request =
     \<lparr>req_col = ''col_reddit'', req_mode = Refresh, req_kind = RedditReq [] None,
      req_signal = Some 0\<rparr>"

definition dup_request :: request where
  "dup_request = \<lparr>req_col = ''col_hn'', req_mode = More, req_kind = HNReq 0, req_signal = Some 0\<rparr>"

definition more_request :: request where
  "more_request = \<lparr>req_col = ''col_hn'', req_mode = More, req_kind = HNReq 1, req_signal = Some 0\<rparr>"

text \<open>After mounting, the \<open>hn\<close> refresh has settled with page 0, a load-more for the
  column is in flight, and the column has been removed.\<close>

definition removal_state :: state where
  "removal_state =
     projr (run [Settle 0 page0_response, LoadColumn ''col_hn'' More, RemoveColumn ''col_hn'']
              mounted)"

section \<open>Properties of the view projection\<close>

lemma includes_str_sublist: "includes_str hay needle = sublist needle hay"
  by (induction hay) (simp_all add: sublist_Cons_right)

lemma fold_out:
  "fold (\<lambda>c out. out(col_id c \<mapsto> f (col_id c))) cols m cid =
     (if cid \<in> col_id ` set cols then Some (f cid) else m cid)"
  by (induction cols arbitrary: m) auto

lemma visibleByColumn_eq:
  "visibleByColumn cols st g cid =
     (if cid \<in> col_id ` set cols
      then Some (if toLowerCase (trim g) = [] then bucket st cid
                 else filter (\<lambda>it. sublist (toLowerCase (trim g)) (haystack it)) (bucket st cid))
      else None)"
proof (cases "toLowerCase (trim g) = []")
  case True
  then show ?thesis
    unfolding visibleByColumn_def Let_def
    using fold_out [of "\<lambda>k. bucket st k" cols Map.empty cid] by simp
next
  case False
  then show ?thesis
    unfolding visibleByColumn_def Let_def includes_str_sublist
    using fold_out [of "\<lambda>k. filter (\<lambda>it. sublist (toLowerCase (trim g)) (haystack it)) (bucket st k)"
                       cols Map.empty cid]
    by simp
qed

lemma visibleByColumn_absent:
  "cid \<notin> col_id ` set cols \<Longrightarrow> visibleByColumn cols st g cid = None"
  by (simp add: visibleByColumn_eq)

text \<open>
  C9, as stated, fails: with the filter text \<open>github\<close> the projection keeps an item
  whose title, summary, author and tags do not contain the text, because its \<open>host\<close>
  does; the projection of the specification drops it.
\<close>

theorem view_filter_counterexample:
  "visibleByColumn one_column one_store ''github'' ''c'' = Some [github_item]
   \<and> spec_project one_column one_store ''github'' ''c'' = Some []"
  by code_simp

text \<open>
  C9, amended: the projection is a function of the columns, the store and the filter
  text. It has an entry exactly for the ids of \<open>columns\<close>. When the filter text is
  empty after trimming, the entry is the column's buffer, unchanged; otherwise it is the
  buffer filtered, in buffer order, by whether the trimmed, lower-cased filter text
  occurs in the lower-cased text joined with spaces from the non-empty fields among
  title, summary, author, subreddit, host and the tags. The fields \<open>id\<close>, \<open>source\<close>,
  \<open>url\<close> and \<open>imageUrl\<close> of an item do not affect whether it is kept.
\<close>

theorem view_projection:
  "visibleByColumn cols st g cid =
     (if cid \<in> col_id ` set cols
      then Some (if toLowerCase (trim g) = [] then bucket st cid
                 else filter (\<lambda>it. sublist (toLowerCase (trim g)) (haystack it)) (bucket st cid))
      else None)
   \<and> haystack (it\<lparr>item_id := a, source := b, url := u, imageUrl := i\<rparr>) = haystack it"
  by (simp add: visibleByColumn_eq haystack_def)

theorem view_projection_witness:
  "visibleByColumn one_column one_store ''  Moon '' ''c'' = Some [moon_item]
   \<and> visibleByColumn one_column one_store ''  '' ''c'' = Some [github_item, moon_item]"
proof -
  have ev: "visibleByColumn one_column one_store ''  Moon '' ''c'' = Some [moon_item]
               \<and> visibleByColumn one_column one_store ''  '' ''c'' = Some [github_item, moon_item]"
    by code_simp
  show ?thesis
    using view_projection [of one_column one_store "''  Moon ''" "''c''"]
    by - (rule ev)
qed

section \<open>Properties of the URL validation\<close>















section \<open>Properties of the controller\<close>

subsection \<open>What \<open>loadColumn\<close>, \<open>settle\<close> and \<open>refreshAll\<close> change\<close>

lemma stray_block_throws: "stray_block = Throws ReferenceError"
  by (simp add: stray_block_def res_binding_def)

lemma catch_msg_nonempty: "catch_msg t \<noteq> []"
  by (simp add: catch_msg_def)

lemma set_loading_other: "k \<noteq> c \<Longrightarrow> set_loading p c k = p k"
  by (simp add: set_loading_def)

lemma set_error_other: "k \<noteq> c \<Longrightarrow> set_error p c msg k = p k"
  by (simp add: set_error_def)

lemma data_of_set_loading [simp]:
  "data_of (s\<lparr>store := set_loading (store s) c\<rparr>) k = data_of s k"
  by (simp add: data_of_def set_loading_def spread_def split: option.splits)

lemma data_of_set_error [simp]:
  "data_of (s\<lparr>store := set_error (store s) c msg\<rparr>) k = data_of s k"
  by (simp add: data_of_def set_error_def spread_def split: option.splits)

lemma set_error_set_loading:
  "set_error (set_loading p c) c msg = set_error p c msg"
  by (auto simp: set_error_def set_loading_def spread_def split: option.splits)

lemma loadColumn_reqs: "reqs (loadColumn s cid m) = reqs s @ started s cid m"
  by (simp add: loadColumn_def started_def dispatch_def stray_block_throws Let_def
      split: option.splits source_type.splits)

lemma loadColumn_frame [simp]:
  "columns (loadColumn s cid m) = columns s"
  "ctls (loadColumn s cid m) = ctls s"
  "abortRef (loadColumn s cid m) = abortRef s"
  "hnQuery (loadColumn s cid m) = hnQuery s"
  by (simp_all add: loadColumn_def dispatch_def stray_block_throws Let_def
      split: option.splits source_type.splits)

lemma loadColumn_other: "k \<noteq> cid \<Longrightarrow> store (loadColumn s cid m) k = store s k"
  by (simp add: loadColumn_def dispatch_def stray_block_throws Let_def set_loading_other
      set_error_other split: option.splits source_type.splits)

lemma loadColumn_data [simp]: "data_of (loadColumn s cid m) k = data_of s k"
  by (simp add: loadColumn_def dispatch_def stray_block_throws Let_def data_of_def
      set_loading_def set_error_def spread_def
      split: option.splits source_type.splits)

lemma loadColumn_single:
  assumes "find (\<lambda>c. col_id c = cid) (columns s) = Some col"
    and "col_type col = NASA \<or> col_type col = Quote"
  shows "loadColumn s cid m =
           s\<lparr>store := set_error (store s) cid ''Could not load content. Try Refresh.''\<rparr>"
  using assms
  by (auto simp: loadColumn_def stray_block_throws Let_def catch_msg_def set_error_set_loading)

lemma settle_idle:
  "\<not> (r < length (reqs s) \<and> reqs s ! r \<noteq> None) \<Longrightarrow> settle s r resp = Inr s"
  by (auto simp: settle_def)

lemma update_none_same: "\<not> r < length xs \<or> xs ! r = None \<Longrightarrow> xs[r := None] = xs"
proof (cases "r < length xs")
  case True
  moreover assume "\<not> r < length xs \<or> xs ! r = None"
  ultimately have "xs ! r = None" by simp
  then show ?thesis by (metis list_update_id)
next
  case False
  then have "length xs \<le> r" by simp
  then show ?thesis by (rule list_update_beyond)
qed

lemma settle_frame:
  assumes "settle s r resp = Inr t"
  shows "columns t = columns s" "ctls t = ctls s" "abortRef t = abortRef s"
    "hnQuery t = hnQuery s" "reqs t = (reqs s)[r := None]"
  using assms
  by (auto simp: settle_def Let_def update_none_same
      split: if_splits option.splits sum.splits fetched.splits)

lemma settle_other:
  assumes "settle s r resp = Inr t"
    and "\<And>q. r < length (reqs s) \<Longrightarrow> reqs s ! r = Some q \<Longrightarrow> req_col q \<noteq> k"
  shows "store t k = store s k"
  using assms
  by (auto simp: settle_def Let_def set_error_other
      split: if_splits option.splits sum.splits fetched.splits)

lemma settle_failed:
  assumes "r < length (reqs s)" "reqs s ! r = Some q" "await_fetch s q resp = Inl e"
  shows "settle s r resp =
           Inr (s\<lparr>reqs := (reqs s)[r := None],
                  store := set_error (store s) (req_col q) (catch_msg (kind_type (req_kind q)))\<rparr>)"
  using assms by (simp add: settle_def Let_def)

lemma await_fetch_aborted:
  "signal_aborted s (req_signal q) \<Longrightarrow> await_fetch s q resp = Inl AbortError"
  by (simp add: await_fetch_def)

lemma settle_refresh_ok:
  assumes "r < length (reqs s)" "reqs s ! r = Some q" "req_mode q = Refresh"
    and "await_fetch s q resp = Inr f"
  shows "\<exists>t. settle s r resp = Inr t \<and> items_of t (req_col q) = Some (fetched_items f)
           \<and> error_of t (req_col q) = [] \<and> \<not> loading_of t (req_col q)"
  using assms
  by (cases f) (simp_all add: settle_def Let_def prevItems_def items_of_def error_of_def
      loading_of_def fetched_items_def)

lemma settle_total_refresh:
  assumes "\<And>q. r < length (reqs s) \<Longrightarrow> reqs s ! r = Some q \<Longrightarrow> req_mode q = Refresh"
  shows "\<exists>t. settle s r resp = Inr t"
  using assms
  by (auto simp: settle_def Let_def prevItems_def
      split: if_splits option.splits sum.splits fetched.splits)

lemma started_cases:
  "started s cid m = [] \<or> (\<exists>q. started s cid m = [Some q] \<and> req_col q = cid \<and> req_mode q = m
       \<and> req_signal q = abortRef s \<and> req_kind q \<noteq> QuoteReq)"
  by (auto simp: started_def split: option.splits source_type.splits)

lemma started_refresh_cong:
  "columns s' = columns s \<Longrightarrow> abortRef s' = abortRef s \<Longrightarrow> hnQuery s' = hnQuery s
   \<Longrightarrow> started s' cid Refresh = started s cid Refresh"
  by (simp add: started_def split: option.splits source_type.splits)

lemma fold_load_frame [simp]:
  "columns (fold (\<lambda>c st. loadColumn st (col_id c) m) cs st) = columns st"
  "ctls (fold (\<lambda>c st. loadColumn st (col_id c) m) cs st) = ctls st"
  "abortRef (fold (\<lambda>c st. loadColumn st (col_id c) m) cs st) = abortRef st"
  "hnQuery (fold (\<lambda>c st. loadColumn st (col_id c) m) cs st) = hnQuery st"
  by (induction cs arbitrary: st) simp_all

lemma fold_load_data [simp]:
  "data_of (fold (\<lambda>c st. loadColumn st (col_id c) m) cs st) k = data_of st k"
  by (induction cs arbitrary: st) simp_all

lemma fold_load_reqs:
  "reqs (fold (\<lambda>c st. loadColumn st (col_id c) Refresh) cs st) =
     reqs st @ concat (map (\<lambda>c. started st (col_id c) Refresh) cs)"
proof (induction cs arbitrary: st)
  case Nil
  then show ?case by simp
next
  case (Cons c cs)
  have same: "\<And>k. started (loadColumn st (col_id c) Refresh) k Refresh =
              started st k Refresh"
    by (rule started_refresh_cong) simp_all
  show ?case
    by (simp add: Cons.IH loadColumn_reqs same)
qed

lemma refreshAll_armed:
  "refreshAll s = fold (\<lambda>c st. loadColumn st (col_id c) Refresh) (columns s) (armed s)"
  by (cases "abortRef s") (simp_all add: refreshAll_def armed_def Let_def)

lemma armed_frame [simp]:
  "columns (armed s) = columns s"
  "reqs (armed s) = reqs s"
  "hnQuery (armed s) = hnQuery s"
  "abortRef (armed s) = Some (length (ctls s))"
  "length (ctls (armed s)) = Suc (length (ctls s))"
  by (simp_all add: armed_def split: option.splits)

lemma refreshAll_frame [simp]:
  "columns (refreshAll s) = columns s"
  "hnQuery (refreshAll s) = hnQuery s"
  "abortRef (refreshAll s) = Some (length (ctls s))"
  "ctls (refreshAll s) = ctls (armed s)"
  by (simp_all add: refreshAll_armed)

lemma refreshAll_reqs:
  "reqs (refreshAll s) =
     reqs s @ concat (map (\<lambda>c. started (armed s) (col_id c) Refresh) (columns s))"
  by (simp add: refreshAll_armed fold_load_reqs)

lemma concat_started:
  assumes "x \<in> set (concat (map (\<lambda>c. started s (col_id c) m) cs))"
  shows "\<exists>q. x = Some q \<and> req_col q \<in> col_id ` set cs \<and> req_mode q = m
           \<and> req_signal q = abortRef s \<and> req_kind q \<noteq> QuoteReq"
proof -
  from assms obtain c where c: "c \<in> set cs" and x: "x \<in> set (started s (col_id c) m)"
    by auto
  from started_cases [of s "col_id c" m] x c show ?thesis by auto
qed

lemma refreshAll_new:
  assumes "length (reqs s) \<le> r" and "r < length (reqs (refreshAll s))"
  shows "\<exists>q. reqs (refreshAll s) ! r = Some q \<and> req_col q \<in> col_id ` set (columns s)
           \<and> req_mode q = Refresh \<and> req_signal q = Some (length (ctls s))
           \<and> req_kind q \<noteq> QuoteReq"
proof -
  let ?new = "concat (map (\<lambda>c. started (armed s) (col_id c) Refresh) (columns s))"
  from assms have "r - length (reqs s) < length ?new"
    by (simp add: refreshAll_reqs)
  then have "?new ! (r - length (reqs s)) \<in> set ?new"
    by (rule nth_mem)
  moreover from assms have "reqs (refreshAll s) ! r = ?new ! (r - length (reqs s))"
    by (simp add: refreshAll_reqs nth_append)
  ultimately show ?thesis
    using concat_started [of "reqs (refreshAll s) ! r" "armed s" Refresh "columns s"]
    by auto
qed

lemma refreshAll_old:
  "r < length (reqs s) \<Longrightarrow> reqs (refreshAll s) ! r = reqs s ! r"
  by (simp add: refreshAll_reqs nth_append)

lemma refreshAll_length: "length (reqs s) \<le> length (reqs (refreshAll s))"
  by (simp add: refreshAll_reqs)

lemma items_of_data: "items_of s k = fst (data_of s k)"
  by (simp add: items_of_def data_of_def split: option.splits)

lemma bucket_data: "bucket (store s) k = (case fst (data_of s k) of None \<Rightarrow> [] | Some xs \<Rightarrow> xs)"
  by (simp add: bucket_def data_of_def split: option.splits)

lemma error_of_set_error [simp]:
  "error_of (s\<lparr>store := set_error (store s) c msg\<rparr>) c = msg"
  "loading_of (s\<lparr>store := set_error (store s) c msg\<rparr>) c = False"
  by (simp_all add: error_of_def loading_of_def set_error_def)

subsection \<open>The feature column\<close>

text \<open>
  C5: for a column of type \<open>nasa\<close> and either mode, \<open>loadColumn\<close> runs to its end
  without an \<open>await\<close>: it starts no request (\<open>fetchNASA\<close> is not called), leaves the
  column's buffer as it was, and ends with the error message set and the loading flag
  cleared, because the stray statement throws before any fetch.
\<close>

theorem loadColumn_nasa_never_loads:
  assumes "find (\<lambda>c. col_id c = cid) (columns s) = Some col" and "col_type col = NASA"
  shows "reqs (loadColumn s cid m) = reqs s
         \<and> items_of (loadColumn s cid m) cid = items_of s cid
         \<and> error_of (loadColumn s cid m) cid = ''Could not load content. Try Refresh.''
         \<and> \<not> loading_of (loadColumn s cid m) cid
         \<and> loadColumn s cid m =
             s\<lparr>store := set_error (store s) cid ''Could not load content. Try Refresh.''\<rparr>"
proof -
  have eq: "loadColumn s cid m =
              s\<lparr>store := set_error (store s) cid ''Could not load content. Try Refresh.''\<rparr>"
    using assms by (simp add: loadColumn_single)
  have "items_of (loadColumn s cid m) cid = items_of s cid"
    by (simp add: items_of_data)
  moreover have "reqs (loadColumn s cid m) = reqs s"
    by (simp add: eq)
  moreover have "error_of (loadColumn s cid m) cid = ''Could not load content. Try Refresh.''"
    by (simp add: eq)
  moreover have "\<not> loading_of (loadColumn s cid m) cid"
    by (simp add: eq)
  ultimately show ?thesis using eq by simp
qed

theorem loadColumn_nasa_never_loads_witness:
  "find (\<lambda>c. col_id c = ''col_nasa'') (columns initial_state) = Some nasa_column
   \<and> col_type nasa_column = NASA
   \<and> reqs (loadColumn initial_state ''col_nasa'' Refresh) = reqs initial_state
   \<and> items_of (loadColumn initial_state ''col_nasa'' Refresh) ''col_nasa''
       = items_of initial_state ''col_nasa''
   \<and> error_of (loadColumn initial_state ''col_nasa'' Refresh) ''col_nasa''
       = ''Could not load content. Try Refresh.''
   \<and> \<not> loading_of (loadColumn initial_state ''col_nasa'' Refresh) ''col_nasa''"
proof -
  have h1: "find (\<lambda>c. col_id c = ''col_nasa'') (columns initial_state) = Some nasa_column"
    by code_simp
  have h2: "col_type nasa_column = NASA"
    by (simp add: nasa_column_def)
  from loadColumn_nasa_never_loads [OF h1 h2, of Refresh] h1 h2 show ?thesis
    by blast
qed

lemma fetchNASA_Inr:
  "fetchNASA r = Inr res \<Longrightarrow> \<exists>status d. r = Http status (Some d) \<and> ok status
      \<and> res = \<lparr>sg_items = [single d], sg_hasMore = False\<rparr>"
  by (auto simp: fetchNASA_def split: response.splits if_splits option.splits)

text \<open>
  C4: on a column of the feature source the caller always gets a reported error: after
  \<open>loadColumn\<close> the column's error message is set and its buffer is what it was, so no
  placeholder item is stored. The statement that would return the fabricated
  \<open>nasa_fallback\<close> item never gets that far (evaluating \<open>res\<close> throws), and \<open>fetchNASA\<close>
  itself answers every transport failure and every non-2xx status with an exception; an
  item it returns always comes from the body of a 2xx response.
\<close>

theorem nasa_failure_reported:
  assumes "find (\<lambda>c. col_id c = cid) (columns s) = Some col" and "col_type col = NASA"
  shows "error_of (loadColumn s cid m) cid \<noteq> []
         \<and> bucket (store (loadColumn s cid m)) cid = bucket (store s) cid
         \<and> stray_block = Throws ReferenceError
         \<and> fetchNASA NetworkFailure = Inl TypeError
         \<and> (\<not> ok status \<longrightarrow> fetchNASA (Http status b) = Inl (RequestFailed NASA status))
         \<and> (\<forall>res. fetchNASA r = Inr res \<longrightarrow>
               (\<exists>st d. r = Http st (Some d) \<and> ok st \<and> sg_items res = [single d]))"
proof -
  have "loadColumn s cid m =
          s\<lparr>store := set_error (store s) cid ''Could not load content. Try Refresh.''\<rparr>"
    using assms by (simp add: loadColumn_single)
  then have "error_of (loadColumn s cid m) cid \<noteq> []"
    by simp
  moreover have "bucket (store (loadColumn s cid m)) cid = bucket (store s) cid"
    by (simp add: bucket_data)
  moreover have "\<forall>res. fetchNASA r = Inr res \<longrightarrow>
               (\<exists>st d. r = Http st (Some d) \<and> ok st \<and> sg_items res = [single d])"
    using fetchNASA_Inr by fastforce
  moreover have "\<not> ok status \<longrightarrow> fetchNASA (Http status b) = Inl (RequestFailed NASA status)"
    by (simp add: fetchNASA_def)
  moreover have "fetchNASA NetworkFailure = Inl TypeError"
    by (simp add: fetchNASA_def)
  ultimately show ?thesis
    by (simp add: stray_block_throws)
qed

theorem nasa_failure_reported_witness:
  "find (\<lambda>c. col_id c = ''col_nasa'') (columns mounted) = Some nasa_column
   \<and> col_type nasa_column = NASA
   \<and> error_of (loadColumn mounted ''col_nasa'' Refresh) ''col_nasa'' \<noteq> []
   \<and> bucket (store (loadColumn mounted ''col_nasa'' Refresh)) ''col_nasa''
       = bucket (store mounted) ''col_nasa''
   \<and> fetchNASA (Http 429 None) = Inl (RequestFailed NASA 429)"
proof -
  have h1: "find (\<lambda>c. col_id c = ''col_nasa'') (columns mounted) = Some nasa_column"
    by code_simp
  have h2: "col_type nasa_column = NASA"
    by (simp add: nasa_column_def)
  have h3: "\<not> ok 429"
    by (simp add: ok_def)
  from nasa_failure_reported [OF h1 h2, of Refresh 429 None] h1 h2 h3 show ?thesis
    by blast
qed

subsection \<open>The guard of "Load More"\<close>

text \<open>
  C3, as stated, fails: right after mounting, the \<open>hn\<close> column is loading with its
  refresh request in flight; \<open>loadColumn("col_hn", "more")\<close> is not a no-op there but
  starts a second request for the same column.
\<close>

theorem loadMore_guard_counterexample:
  "loading_of mounted ''col_hn''
   \<and> in_flight mounted 0 first_request
   \<and> loadColumn mounted ''col_hn'' More \<noteq> mounted
   \<and> in_flight (loadColumn mounted ''col_hn'' More) 0 first_request
   \<and> in_flight (loadColumn mounted ''col_hn'' More) 2 dup_request"
proof -
  have "reqs (loadColumn mounted ''col_hn'' More) \<noteq> reqs mounted"
    by code_simp
  then have "loadColumn mounted ''col_hn'' More \<noteq> mounted"
    by auto
  moreover have "loading_of mounted ''col_hn''
   \<and> in_flight mounted 0 first_request
   \<and> in_flight (loadColumn mounted ''col_hn'' More) 0 first_request
   \<and> in_flight (loadColumn mounted ''col_hn'' More) 2 dup_request"
    by code_simp
  ultimately show ?thesis by simp
qed

lemma find_col_id: "find (\<lambda>c. col_id c = cid) cs = Some col \<Longrightarrow> col_id col = cid \<and> col \<in> set cs"
  by (induction cs) (auto split: if_splits)

lemma find_None_iff_col: "find (\<lambda>c. col_id c = cid) cs = None \<longleftrightarrow> cid \<notin> col_id ` set cs"
  by (induction cs) auto

lemma loadColumn_paged:
  assumes "find (\<lambda>c. col_id c = cid) (columns s) = Some col"
    and "col_type col = HN \<or> col_type col = Reddit"
  shows "\<exists>q. reqs (loadColumn s cid m) = reqs s @ [Some q] \<and> req_col q = cid \<and> req_mode q = m
           \<and> req_signal q = abortRef s"
    and "store (loadColumn s cid m) = set_loading (store s) cid"
  using assms
  by (auto simp: loadColumn_def dispatch_def Let_def)

lemma loading_of_set_loading [simp]:
  "loading_of (s\<lparr>store := set_loading (store s) c\<rparr>) c"
  by (simp add: loading_of_def set_loading_def)

lemma clickLoadMore_twice: "clickLoadMore (clickLoadMore s cid) cid = clickLoadMore s cid"
proof (cases "loadMore_enabled s cid")
  case False
  then show ?thesis by (simp add: clickLoadMore_def)
next
  case True
  then obtain col where col: "find (\<lambda>c. col_id c = cid) (columns s) = Some col"
    using find_None_iff_col [of cid "columns s"] by (auto simp: loadMore_enabled_def)
  show ?thesis
  proof (cases "col_type col = HN \<or> col_type col = Reddit")
    case True
    from loadColumn_paged(2) [OF col True, of More]
    have "\<not> loadMore_enabled (loadColumn s cid More) cid"
      by (simp add: loadMore_enabled_def set_loading_def)
    then show ?thesis by (simp add: clickLoadMore_def)
  next
    case False
    then have t: "col_type col = NASA \<or> col_type col = Quote"
      by (cases "col_type col") auto
    let ?msg = "''Could not load content. Try Refresh.''"
    have e1: "loadColumn s cid More = s\<lparr>store := set_error (store s) cid ?msg\<rparr>"
      using col t by (rule loadColumn_single)
    have col': "find (\<lambda>c. col_id c = cid) (columns (loadColumn s cid More)) = Some col"
      using col by simp
    have e2: "loadColumn (loadColumn s cid More) cid More =
                (loadColumn s cid More)\<lparr>store := set_error (store (loadColumn s cid More)) cid ?msg\<rparr>"
      using col' t by (rule loadColumn_single)
    have "set_error (set_error (store s) cid ?msg) cid ?msg = set_error (store s) cid ?msg"
      by (auto simp: set_error_def spread_def)
    then have "loadColumn (loadColumn s cid More) cid More = loadColumn s cid More"
      by (simp add: e2) (simp add: e1)
    then show ?thesis by (simp add: clickLoadMore_def)
  qed
qed

text \<open>
  C3, amended: \<open>loadColumn\<close> has no guard on the loading flag or on \<open>hasMore\<close>: on
  an \<open>hn\<close> or \<open>reddit\<close> column every call, in either mode, marks the column as loading
  and puts one more request in flight. The guard is in the view: a click on the
  "Load More" control changes nothing while the column is loading or when \<open>hasMore\<close> is
  not true, so a second click right after the first one is a no-op and two clicks start
  at most one request.
\<close>

theorem loadMore_guard_in_view:
  "(loading_of s cid \<or> \<not> hasMore_of s cid \<longrightarrow> clickLoadMore s cid = s)
   \<and> clickLoadMore (clickLoadMore s cid) cid = clickLoadMore s cid
   \<and> length (reqs (clickLoadMore (clickLoadMore s cid) cid)) \<le> Suc (length (reqs s))
   \<and> (find (\<lambda>c. col_id c = cid) (columns s) = Some col
        \<and> (col_type col = HN \<or> col_type col = Reddit) \<longrightarrow>
        length (reqs (loadColumn s cid m)) = Suc (length (reqs s))
        \<and> loading_of (loadColumn s cid m) cid)"
proof -
  have a: "loading_of s cid \<or> \<not> hasMore_of s cid \<longrightarrow> clickLoadMore s cid = s"
    by (auto simp: clickLoadMore_def loadMore_enabled_def loading_of_def hasMore_of_def
        split: option.splits)
  have "length (reqs (clickLoadMore s cid)) \<le> Suc (length (reqs s))"
    using started_cases [of s cid More]
    by (auto simp: clickLoadMore_def loadColumn_reqs)
  then have c: "length (reqs (clickLoadMore (clickLoadMore s cid) cid)) \<le> Suc (length (reqs s))"
    by (simp add: clickLoadMore_twice)
  have d: "find (\<lambda>c. col_id c = cid) (columns s) = Some col
        \<and> (col_type col = HN \<or> col_type col = Reddit) \<longrightarrow>
        length (reqs (loadColumn s cid m)) = Suc (length (reqs s))
        \<and> loading_of (loadColumn s cid m) cid"
  proof (intro impI, elim conjE)
    assume col: "find (\<lambda>c. col_id c = cid) (columns s) = Some col"
      and t: "col_type col = HN \<or> col_type col = Reddit"
    from loadColumn_paged(1) [OF col t, of m]
    have "length (reqs (loadColumn s cid m)) = Suc (length (reqs s))" by auto
    moreover from loadColumn_paged(2) [OF col t, of m]
    have "loading_of (loadColumn s cid m) cid"
      by (simp add: loading_of_def set_loading_def)
    ultimately show "length (reqs (loadColumn s cid m)) = Suc (length (reqs s))
        \<and> loading_of (loadColumn s cid m) cid" by simp
  qed
  from a c d show ?thesis by (simp add: clickLoadMore_twice)
qed

theorem loadMore_guard_in_view_witness:
  "loading_of mounted ''col_hn''
   \<and> clickLoadMore mounted ''col_hn'' = mounted
   \<and> find (\<lambda>c. col_id c = ''col_hn'') (columns initial_state) = Some hn_column
   \<and> col_type hn_column = HN
   \<and> length (reqs (loadColumn initial_state ''col_hn'' More)) = Suc (length (reqs initial_state))
   \<and> loading_of (loadColumn initial_state ''col_hn'' More) ''col_hn''"
proof -
  have h1: "loading_of mounted ''col_hn''"
    by code_simp
  have h2: "find (\<lambda>c. col_id c = ''col_hn'') (columns initial_state) = Some hn_column"
    by code_simp
  have h3: "col_type hn_column = HN"
    by (simp add: hn_column_def)
  from loadMore_guard_in_view [of mounted "''col_hn''"]
       loadMore_guard_in_view [of initial_state "''col_hn''" hn_column More] h1 h2 h3
  show ?thesis by blast
qed

subsection \<open>Refresh followed by load-more\<close>

lemma signal_aborted_ctls:
  "ctls s' = ctls s \<Longrightarrow> signal_aborted s' sg = signal_aborted s sg"
  by (simp add: signal_aborted_def split: option.splits)

lemma await_fetch_ctls: "ctls s' = ctls s \<Longrightarrow> await_fetch s' q r = await_fetch s q r"
  by (simp add: await_fetch_def signal_aborted_ctls [of s' s])

lemma await_fetch_live:
  "\<not> signal_aborted s (req_signal q) \<Longrightarrow>
     await_fetch s q r =
       (case req_kind q of
          HNReq pg \<Rightarrow> map_sum id HNRes (fetchHN pg r)
        | RedditReq query aft \<Rightarrow> map_sum id RedditRes (fetchReddit query r)
        | QuoteReq \<Rightarrow> map_sum id QuoteRes (fetchQuote r))"
  by (simp add: await_fetch_def)

lemma fetchHN_nextPage: "fetchHN pg r = Inr p \<Longrightarrow> nextPage p = pg + 1"
  by (auto simp: fetchHN_def split: response.splits if_splits option.splits)

lemma settle_ok:
  assumes "in_flight s r q" and "await_fetch s q resp = Inr f"
    and "prevItems (store s) (req_col q) (req_mode q) = Inr prev"
  shows "\<exists>t e. settle s r resp = Inr t \<and> store t (req_col q) = Some e
           \<and> (req_kind q \<noteq> QuoteReq \<longrightarrow> items e = Some (prev @ fetched_items f))
           \<and> error e = [] \<and> \<not> loading e
           \<and> (\<forall>p. f = HNRes p \<longrightarrow> page e = Some (nextPage p) \<and> hasMore e = Some (hn_hasMore p))
           \<and> (\<forall>p. f = RedditRes p \<longrightarrow> after e = nextAfter p \<and> hasMore e = Some (rd_hasMore p))"
proof (cases f)
  case (HNRes p)
  with assms show ?thesis
    by (simp add: settle_def in_flight_def Let_def fetched_items_def)
next
  case (RedditRes p)
  with assms show ?thesis
    by (simp add: settle_def in_flight_def Let_def fetched_items_def)
next
  case (QuoteRes p)
  with assms(2) have "req_kind q = QuoteReq"
    by (auto simp: await_fetch_def split: if_splits req_kind.splits sum.splits
        simp: map_sum_def)
  with QuoteRes assms show ?thesis
    by (simp add: settle_def in_flight_def Let_def fetched_items_def)
qed

lemma started_paged:
  assumes "find (\<lambda>c. col_id c = cid) (columns s) = Some col"
  shows "col_type col = HN \<Longrightarrow>
           started s cid m =
             [Some \<lparr>req_col = cid, req_mode = m,
                    req_kind = HNReq (if m = More
                                      then (case store s cid of None \<Rightarrow> 0
                                            | Some e \<Rightarrow> (case page e of None \<Rightarrow> 0 | Some n \<Rightarrow> n))
                                      else 0),
                    req_signal = abortRef s\<rparr>]"
    and "col_type col = Reddit \<Longrightarrow>
           started s cid m =
             [Some \<lparr>req_col = cid, req_mode = m,
                    req_kind = RedditReq (hnQuery s)
                       (if m = More
                        then (case store s cid of None \<Rightarrow> None | Some e \<Rightarrow> after e)
                        else None),
                    req_signal = abortRef s\<rparr>]"
  using assms by (simp_all add: started_def)

lemma in_flight_last: "reqs t = xs @ [Some q] \<Longrightarrow> in_flight t (length xs) q"
  by (simp add: in_flight_def)

lemma two_steps:
  assumes s2: "settle (loadColumn s cid Refresh) (length (reqs s)) resp0 = Inr s2"
    and s4: "settle (loadColumn s2 cid More) (Suc (length (reqs s))) resp1 = Inr t"
  shows "refresh_then_more s cid resp0 resp1 = Inr t"
  using assms by (simp add: refresh_then_more_def step_def)

lemma hn_refresh_then_more:
  assumes col: "find (\<lambda>c. col_id c = cid) (columns s) = Some col"
    and live: "\<not> signal_aborted s (abortRef s)"
    and t: "col_type col = HN"
    and p0: "fetchHN 0 resp0 = Inr p0"
    and p1: "fetchHN (nextPage p0) resp1 = Inr p1"
  shows "\<exists>t e. refresh_then_more s cid resp0 resp1 = Inr t \<and> store t cid = Some e
               \<and> items e = Some (hn_items p0 @ hn_items p1)
               \<and> page e = Some (nextPage p0 + 1) \<and> hasMore e = Some (hn_hasMore p1)
               \<and> error e = [] \<and> \<not> loading e"
proof -
  define q0 where "q0 = \<lparr>req_col = cid, req_mode = Refresh, req_kind = HNReq 0,
                          req_signal = abortRef s\<rparr>"
  define s1 where "s1 = loadColumn s cid Refresh"
  have r1: "reqs s1 = reqs s @ [Some q0]"
    unfolding s1_def q0_def by (simp add: loadColumn_reqs started_paged(1) [OF col t])
  have c1: "ctls s1 = ctls s" unfolding s1_def by simp
  have fl0: "in_flight s1 (length (reqs s)) q0"
    using r1 by (rule in_flight_last)
  have "await_fetch s1 q0 resp0 = await_fetch s q0 resp0"
    using c1 by (rule await_fetch_ctls)
  also have "\<dots> = Inr (HNRes p0)"
    using live p0 by (simp add: await_fetch_live q0_def)
  finally have f0: "await_fetch s1 q0 resp0 = Inr (HNRes p0)" .
  have pr0: "prevItems (store s1) (req_col q0) (req_mode q0) = Inr []"
    by (simp add: prevItems_def q0_def)
  from settle_ok [OF fl0 f0 pr0] obtain s2 e2 where
    s2: "settle s1 (length (reqs s)) resp0 = Inr s2" and e2: "store s2 cid = Some e2"
    and i2: "items e2 = Some (hn_items p0)" and pg2: "page e2 = Some (nextPage p0)"
    by (auto simp: q0_def fetched_items_def)
  have col2: "find (\<lambda>c. col_id c = cid) (columns s2) = Some col"
    using settle_frame(1) [OF s2] col by (simp add: s1_def)
  have ab2: "abortRef s2 = abortRef s"
    using settle_frame(3) [OF s2] by (simp add: s1_def)
  have c2: "ctls s2 = ctls s"
    using settle_frame(2) [OF s2] c1 by simp
  have len2: "length (reqs s2) = Suc (length (reqs s))"
    using settle_frame(5) [OF s2] r1 by simp
  define q1 where "q1 = \<lparr>req_col = cid, req_mode = More, req_kind = HNReq (nextPage p0),
                          req_signal = abortRef s\<rparr>"
  define s3 where "s3 = loadColumn s2 cid More"
  have r3: "reqs s3 = reqs s2 @ [Some q1]"
    unfolding s3_def q1_def
    by (simp add: loadColumn_reqs started_paged(1) [OF col2 t] e2 pg2 ab2)
  have fl1: "in_flight s3 (Suc (length (reqs s))) q1"
    using in_flight_last [OF r3] len2 by simp
  have c3: "ctls s3 = ctls s" unfolding s3_def using c2 by simp
  have "await_fetch s3 q1 resp1 = await_fetch s q1 resp1"
    using c3 by (rule await_fetch_ctls)
  also have "\<dots> = Inr (HNRes p1)"
    using live p1 by (simp add: await_fetch_live q1_def)
  finally have f1: "await_fetch s3 q1 resp1 = Inr (HNRes p1)" .
  have st3: "store s3 cid = Some (e2\<lparr>loading := True, error := []\<rparr>)"
    unfolding s3_def
    by (simp add: loadColumn_paged(2) [OF col2 disjI1 [OF t]] set_loading_def spread_def e2)
  have pr1: "prevItems (store s3) (req_col q1) (req_mode q1) = Inr (hn_items p0)"
    by (simp add: prevItems_def q1_def st3 i2)
  from settle_ok [OF fl1 f1 pr1] obtain t4 e4 where
    s4: "settle s3 (Suc (length (reqs s))) resp1 = Inr t4" and e4: "store t4 cid = Some e4"
    and fields: "items e4 = Some (hn_items p0 @ hn_items p1)" "page e4 = Some (nextPage p1)"
      "hasMore e4 = Some (hn_hasMore p1)" "error e4 = []" "\<not> loading e4"
    by (auto simp: q1_def fetched_items_def)
  have "refresh_then_more s cid resp0 resp1 = Inr t4"
    using s2 s4 unfolding s1_def s3_def by (rule two_steps)
  with e4 fields fetchHN_nextPage [OF p1] show ?thesis by auto
qed

lemma reddit_refresh_then_more:
  assumes col: "find (\<lambda>c. col_id c = cid) (columns s) = Some col"
    and live: "\<not> signal_aborted s (abortRef s)"
    and t: "col_type col = Reddit"
    and p0: "fetchReddit (hnQuery s) resp0 = Inr p0"
    and p1: "fetchReddit (hnQuery s) resp1 = Inr p1"
  shows "\<exists>t e. refresh_then_more s cid resp0 resp1 = Inr t \<and> store t cid = Some e
               \<and> items e = Some (rd_items p0 @ rd_items p1)
               \<and> after e = nextAfter p1 \<and> hasMore e = Some (rd_hasMore p1)
               \<and> error e = [] \<and> \<not> loading e"
proof -
  define q0 where "q0 = \<lparr>req_col = cid, req_mode = Refresh,
                          req_kind = RedditReq (hnQuery s) None, req_signal = abortRef s\<rparr>"
  define s1 where "s1 = loadColumn s cid Refresh"
  have r1: "reqs s1 = reqs s @ [Some q0]"
    unfolding s1_def q0_def by (simp add: loadColumn_reqs started_paged(2) [OF col t])
  have c1: "ctls s1 = ctls s" unfolding s1_def by simp
  have fl0: "in_flight s1 (length (reqs s)) q0"
    using r1 by (rule in_flight_last)
  have "await_fetch s1 q0 resp0 = await_fetch s q0 resp0"
    using c1 by (rule await_fetch_ctls)
  also have "\<dots> = Inr (RedditRes p0)"
    using live p0 by (simp add: await_fetch_live q0_def)
  finally have f0: "await_fetch s1 q0 resp0 = Inr (RedditRes p0)" .
  have pr0: "prevItems (store s1) (req_col q0) (req_mode q0) = Inr []"
    by (simp add: prevItems_def q0_def)
  from settle_ok [OF fl0 f0 pr0] obtain s2 e2 where
    s2: "settle s1 (length (reqs s)) resp0 = Inr s2" and e2: "store s2 cid = Some e2"
    and i2: "items e2 = Some (rd_items p0)" and af2: "after e2 = nextAfter p0"
    by (auto simp: q0_def fetched_items_def)
  have col2: "find (\<lambda>c. col_id c = cid) (columns s2) = Some col"
    using settle_frame(1) [OF s2] col by (simp add: s1_def)
  have ab2: "abortRef s2 = abortRef s"
    using settle_frame(3) [OF s2] by (simp add: s1_def)
  have hq2: "hnQuery s2 = hnQuery s"
    using settle_frame(4) [OF s2] by (simp add: s1_def)
  have c2: "ctls s2 = ctls s"
    using settle_frame(2) [OF s2] c1 by simp
  have len2: "length (reqs s2) = Suc (length (reqs s))"
    using settle_frame(5) [OF s2] r1 by simp
  define q1 where "q1 = \<lparr>req_col = cid, req_mode = More,
                          req_kind = RedditReq (hnQuery s) (nextAfter p0),
                          req_signal = abortRef s\<rparr>"
  define s3 where "s3 = loadColumn s2 cid More"
  have r3: "reqs s3 = reqs s2 @ [Some q1]"
    unfolding s3_def q1_def
    by (simp add: loadColumn_reqs started_paged(2) [OF col2 t] e2 af2 ab2 hq2)
  have fl1: "in_flight s3 (Suc (length (reqs s))) q1"
    using in_flight_last [OF r3] len2 by simp
  have c3: "ctls s3 = ctls s" unfolding s3_def using c2 by simp
  have "await_fetch s3 q1 resp1 = await_fetch s q1 resp1"
    using c3 by (rule await_fetch_ctls)
  also have "\<dots> = Inr (RedditRes p1)"
    using live p1 by (simp add: await_fetch_live q1_def)
  finally have f1: "await_fetch s3 q1 resp1 = Inr (RedditRes p1)" .
  have st3: "store s3 cid = Some (e2\<lparr>loading := True, error := []\<rparr>)"
    unfolding s3_def
    by (simp add: loadColumn_paged(2) [OF col2 disjI2 [OF t]] set_loading_def spread_def e2)
  have pr1: "prevItems (store s3) (req_col q1) (req_mode q1) = Inr (rd_items p0)"
    by (simp add: prevItems_def q1_def st3 i2)
  from settle_ok [OF fl1 f1 pr1] obtain t4 e4 where
    s4: "settle s3 (Suc (length (reqs s))) resp1 = Inr t4" and e4: "store t4 cid = Some e4"
    and fields: "items e4 = Some (rd_items p0 @ rd_items p1)" "after e4 = nextAfter p1"
      "hasMore e4 = Some (rd_hasMore p1)" "error e4 = []" "\<not> loading e4"
    by (auto simp: q1_def fetched_items_def)
  have "refresh_then_more s cid resp0 resp1 = Inr t4"
    using s2 s4 unfolding s1_def s3_def by (rule two_steps)
  with e4 fields show ?thesis by auto
qed

text \<open>
  C6: on an \<open>hn\<close> or \<open>reddit\<close> column whose signal is not aborted, a refresh whose
  client returns \<open>page0\<close> followed by a load-more whose client returns \<open>page1\<close> leaves
  the buffer equal to the items of \<open>page0\<close> followed by those of \<open>page1\<close>; the cursor is
  the one of the last response (for \<open>hn\<close> the page number has advanced by one),
  \<open>hasMore\<close> is the one of the last response, the error is cleared and loading is off.
\<close>

theorem append_only_pagination:
  assumes "find (\<lambda>c. col_id c = cid) (columns s) = Some col"
    and "\<not> signal_aborted s (abortRef s)"
  shows "(col_type col = HN \<and> fetchHN 0 resp0 = Inr p0 \<and> fetchHN (nextPage p0) resp1 = Inr p1
            \<longrightarrow> (\<exists>t e. refresh_then_more s cid resp0 resp1 = Inr t \<and> store t cid = Some e
               \<and> items e = Some (hn_items p0 @ hn_items p1)
               \<and> page e = Some (nextPage p0 + 1) \<and> hasMore e = Some (hn_hasMore p1)
               \<and> error e = [] \<and> \<not> loading e))
         \<and> (col_type col = Reddit \<and> fetchReddit (hnQuery s) resp0 = Inr r0
              \<and> fetchReddit (hnQuery s) resp1 = Inr r1
            \<longrightarrow> (\<exists>t e. refresh_then_more s cid resp0 resp1 = Inr t \<and> store t cid = Some e
               \<and> items e = Some (rd_items r0 @ rd_items r1)
               \<and> after e = nextAfter r1 \<and> hasMore e = Some (rd_hasMore r1)
               \<and> error e = [] \<and> \<not> loading e))"
  using hn_refresh_then_more [OF assms, of resp0 p0 resp1 p1]
        reddit_refresh_then_more [OF assms, of resp0 r0 resp1 r1]
  by blast

theorem append_only_pagination_witness:
  "find (\<lambda>c. col_id c = ''col_hn'') (columns initial_state) = Some hn_column
   \<and> \<not> signal_aborted initial_state (abortRef initial_state)
   \<and> col_type hn_column = HN
   \<and> fetchHN 0 page0_response = Inr page0_result
   \<and> fetchHN (nextPage page0_result) page1_response = Inr page1_result
   \<and> (\<exists>t e. refresh_then_more initial_state ''col_hn'' page0_response page1_response = Inr t
         \<and> store t ''col_hn'' = Some e
         \<and> items e = Some (hn_items page0_result @ hn_items page1_result)
         \<and> page e = Some (nextPage page0_result + 1)
         \<and> hasMore e = Some (hn_hasMore page1_result)
         \<and> error e = [] \<and> \<not> loading e)
   \<and> hn_items page0_result @ hn_items page1_result = [github_item, moon_item]"
proof -
  have h1: "find (\<lambda>c. col_id c = ''col_hn'') (columns initial_state) = Some hn_column"
    by code_simp
  have h2: "\<not> signal_aborted initial_state (abortRef initial_state)"
    by code_simp
  have h3: "col_type hn_column = HN"
    by (simp add: hn_column_def)
  have h4: "fetchHN 0 page0_response = Inr page0_result"
    by code_simp
  have h5: "fetchHN (nextPage page0_result) page1_response = Inr page1_result"
    by code_simp
  have h6: "hn_items page0_result @ hn_items page1_result = [github_item, moon_item]"
    by (simp add: page0_result_def page1_result_def)
  from append_only_pagination [OF h1 h2, of page0_response page0_result page1_response
      page1_result] h1 h2 h3 h4 h5 h6
  show ?thesis by blast
qed

subsection \<open>A cancelled request settles\<close>

text \<open>
  C7, as stated, fails: after a second \<open>refreshAll\<close> the first refresh request of the
  \<open>hn\<close> column is cancelled (its signal is aborted) and the column shows no error; when
  that request settles, the column's error message is set and its loading flag is
  cleared, although the request of the second refresh is still in flight.
\<close>

theorem cancelled_request_counterexample:
  "in_flight (refreshAll mounted) 0 first_request
   \<and> signal_aborted (refreshAll mounted) (req_signal first_request)
   \<and> error_of (refreshAll mounted) ''col_hn'' = []
   \<and> loading_of (refreshAll mounted) ''col_hn''
   \<and> \<not> isl (settle (refreshAll mounted) 0 page0_response)
   \<and> error_of (projr (settle (refreshAll mounted) 0 page0_response)) ''col_hn''
       = ''Could not load content. Try Refresh.''
   \<and> \<not> loading_of (projr (settle (refreshAll mounted) 0 page0_response)) ''col_hn''"
  by code_simp

lemma ensureStore_frame [simp]:
  "columns (ensureStore s) = columns s"
  "reqs (ensureStore s) = reqs s"
  "ctls (ensureStore s) = ctls s"
  "abortRef (ensureStore s) = abortRef s"
  by (simp_all add: ensureStore_def)

lemma fold_ensure_other:
  "k \<notin> col_id ` set cs \<Longrightarrow>
     fold (\<lambda>c next. if next (col_id c) = None
                      then next(col_id c \<mapsto> initial_entry (col_type c)) else next) cs p k = p k"
  by (induction cs arbitrary: p) auto

lemma ensureStore_other: "k \<notin> col_id ` set (columns s) \<Longrightarrow> store (ensureStore s) k = store s k"
  by (simp add: ensureStore_def fold_ensure_other)

text \<open>
  C7, amended: a request whose signal was aborted settles like any failed request.
  Whatever the server answered, its completion changes no buffer, cursor or \<open>hasMore\<close>
  value of any column, no other column's entry and not the column list; on its own
  column it sets the error message of the \<open>catch\<close> and clears the loading flag.
\<close>

theorem cancelled_request_sets_error:
  assumes "in_flight s r q" and "signal_aborted s (req_signal q)"
  shows "\<exists>t. settle s r resp = Inr t \<and> columns t = columns s
           \<and> (\<forall>k. data_of t k = data_of s k)
           \<and> (\<forall>k. k \<noteq> req_col q \<longrightarrow> store t k = store s k)
           \<and> error_of t (req_col q) = catch_msg (kind_type (req_kind q))
           \<and> error_of t (req_col q) \<noteq> []
           \<and> \<not> loading_of t (req_col q)
           \<and> reqs t = (reqs s)[r := None]"
proof -
  let ?t = "s\<lparr>reqs := (reqs s)[r := None],
              store := set_error (store s) (req_col q) (catch_msg (kind_type (req_kind q)))\<rparr>"
  from assms have "settle s r resp = Inr ?t"
    by (simp add: settle_failed in_flight_def await_fetch_aborted)
  moreover have "\<forall>k. data_of ?t k = data_of s k"
    by (simp add: data_of_def set_error_def spread_def split: option.splits)
  moreover have "\<forall>k. k \<noteq> req_col q \<longrightarrow> store ?t k = store s k"
    by (simp add: set_error_other)
  moreover have "error_of ?t (req_col q) = catch_msg (kind_type (req_kind q))"
    by (simp add: error_of_def set_error_def)
  moreover have "\<not> loading_of ?t (req_col q)"
    by (simp add: loading_of_def set_error_def)
  ultimately show ?thesis
    by (simp add: catch_msg_nonempty)
qed

theorem cancelled_request_sets_error_witness:
  "in_flight (refreshAll mounted) 0 first_request
   \<and> signal_aborted (refreshAll mounted) (req_signal first_request)
   \<and> (\<exists>t. settle (refreshAll mounted) 0 page0_response = Inr t
         \<and> columns t = columns (refreshAll mounted)
         \<and> (\<forall>k. data_of t k = data_of (refreshAll mounted) k)
         \<and> error_of t (req_col first_request) \<noteq> []
         \<and> \<not> loading_of t (req_col first_request))"
proof -
  have h1: "in_flight (refreshAll mounted) 0 first_request"
    by code_simp
  have h2: "signal_aborted (refreshAll mounted) (req_signal first_request)"
    by code_simp
  from cancelled_request_sets_error [OF h1 h2, of page0_response] h1 h2
  show ?thesis by blast
qed

subsection \<open>A request settles after its column was removed\<close>

text \<open>
  C8, as stated, fails: a load-more request of the \<open>hn\<close> column is in flight when the
  column is removed; the request is not cancelled (its signal is not aborted), and when
  it settles its items are appended to the store entry of the removed column.
\<close>

theorem removeColumn_counterexample:
  "\<not> isl (run [Settle 0 page0_response, LoadColumn ''col_hn'' More, RemoveColumn ''col_hn'']
            mounted)
   \<and> ''col_hn'' \<notin> col_id ` set (columns removal_state)
   \<and> in_flight removal_state 2 more_request
   \<and> \<not> signal_aborted removal_state (req_signal more_request)
   \<and> items_of removal_state ''col_hn'' = Some [github_item]
   \<and> \<not> isl (settle removal_state 2 page1_response)
   \<and> items_of (projr (settle removal_state 2 page1_response)) ''col_hn''
       = Some [github_item, moon_item]"
  by code_simp

text \<open>
  C8, amended: \<open>removeColumn\<close> takes the column out of \<open>columns\<close> and does nothing
  else: the requests in flight, the abort controllers and the store entry of the column
  stay as they are. When a request settles afterwards, the column is not recreated: it
  is not in \<open>columns\<close> and the view has no entry for it; the completion writes at most
  to the store entry under the id the request was started for.
\<close>

theorem removeColumn_does_not_cancel:
  assumes "settle (ensureStore (removeColumn s cid)) r resp = Inr t"
  shows "reqs (ensureStore (removeColumn s cid)) = reqs s
         \<and> ctls (ensureStore (removeColumn s cid)) = ctls s
         \<and> store (ensureStore (removeColumn s cid)) cid = store s cid
         \<and> columns t = filter (\<lambda>c. col_id c \<noteq> cid) (columns s)
         \<and> cid \<notin> col_id ` set (columns t)
         \<and> visibleByColumn (columns t) (store t) g cid = None
         \<and> (\<forall>q k. in_flight s r q \<and> k \<noteq> req_col q \<longrightarrow>
               store t k = store (ensureStore (removeColumn s cid)) k)"
proof -
  let ?u = "ensureStore (removeColumn s cid)"
  have cols: "columns ?u = filter (\<lambda>c. col_id c \<noteq> cid) (columns s)"
    by (simp add: removeColumn_def)
  then have notin: "cid \<notin> col_id ` set (columns ?u)"
    by auto
  have rq: "reqs ?u = reqs s" and ct: "ctls ?u = ctls s"
    by (simp_all add: removeColumn_def)
  have "store ?u cid = store (removeColumn s cid) cid"
    using notin by (intro ensureStore_other) simp
  then have st: "store ?u cid = store s cid"
    by (simp add: removeColumn_def)
  have ct': "columns t = columns ?u"
    using settle_frame(1) [OF assms] .
  have vis: "visibleByColumn (columns t) (store t) g cid = None"
    using notin ct' by (simp add: visibleByColumn_absent)
  have other: "\<forall>q k. in_flight s r q \<and> k \<noteq> req_col q \<longrightarrow> store t k = store ?u k"
  proof (intro allI impI, elim conjE)
    fix q k
    assume q: "in_flight s r q" and k: "k \<noteq> req_col q"
    show "store t k = store ?u k"
    proof (rule settle_other [OF assms])
      fix q'
      assume "r < length (reqs ?u)" and "reqs ?u ! r = Some q'"
      with q rq have "q' = q" by (simp add: in_flight_def)
      with k show "req_col q' \<noteq> k" by simp
    qed
  qed
  from rq ct st cols notin ct' vis other show ?thesis by simp
qed

theorem removeColumn_does_not_cancel_witness:
  "(\<exists>t. settle (ensureStore (removeColumn mounted ''col_hn'')) 0 page0_response = Inr t
        \<and> ''col_hn'' \<notin> col_id ` set (columns t)
        \<and> visibleByColumn (columns t) (store t) [] ''col_hn'' = None)
   \<and> reqs (ensureStore (removeColumn mounted ''col_hn'')) = reqs mounted"
proof -
  have "\<not> isl (settle (ensureStore (removeColumn mounted ''col_hn'')) 0 page0_response)"
    by code_simp
  then obtain t where h: "settle (ensureStore (removeColumn mounted ''col_hn'')) 0 page0_response = Inr t"
    by (cases "settle (ensureStore (removeColumn mounted ''col_hn'')) 0 page0_response") auto
  from removeColumn_does_not_cancel [OF h, of "[]"] h show ?thesis by blast
qed

subsection \<open>Responses of an earlier \<open>refreshAll\<close>\<close>

lemma later_cancelled:
  assumes "later s s'" and "cancelled s r"
  shows "cancelled s' r"
proof -
  from assms(2) have r: "r < length (reqs s)" by (simp add: cancelled_def)
  with assms(1) have r': "r < length (reqs s')" by (simp add: later_def)
  from assms(1) r have "reqs s' ! r = reqs s ! r \<or> reqs s' ! r = None"
    by (simp add: later_def)
  then show ?thesis
  proof
    assume "reqs s' ! r = None"
    with r' show ?thesis by (simp add: cancelled_def)
  next
    assume same: "reqs s' ! r = reqs s ! r"
    show ?thesis
    proof (cases "reqs s ! r")
      case None
      with same r' show ?thesis by (simp add: cancelled_def)
    next
      case (Some q)
      with assms(2) have "signal_aborted s (req_signal q)" by (simp add: cancelled_def)
      with assms(1) have "signal_aborted s' (req_signal q)"
        by (auto simp: signal_aborted_def later_def split: option.splits)
      with same Some r' show ?thesis by (simp add: cancelled_def)
    qed
  qed
qed

lemma nth_update_cases:
  "j < length xs \<Longrightarrow> xs[i := x] ! j = (if i = j then x else xs ! j)"
  by simp

lemma later_append:
  "ctls s' = ctls s \<Longrightarrow> reqs s' = reqs s @ xs \<Longrightarrow> later s s'"
  by (simp add: later_def nth_append)

lemma later_loadColumn: "later s (loadColumn s cid m)"
  by (rule later_append [where xs = "started s cid m"]) (simp_all add: loadColumn_reqs)

lemma later_clickLoadMore: "later s (clickLoadMore s cid)"
  by (simp add: clickLoadMore_def later_loadColumn) (simp add: later_def)

lemma later_settle: "settle s r resp = Inr t \<Longrightarrow> later s t"
  using settle_frame(2,5) [of s r resp t]
  by (auto simp: later_def nth_update_cases)

lemma later_refreshAll: "later s (refreshAll s)"
  by (auto simp: later_def refreshAll_reqs nth_append armed_def nth_update_cases
      split: option.splits)

lemma later_step:
  assumes "step e s = Inr t"
  shows "later s t"
proof (cases e)
  case RefreshAll
  with assms show ?thesis by (auto simp: step_def later_refreshAll)
next
  case (LoadColumn cid m)
  with assms show ?thesis by (auto simp: step_def later_loadColumn)
next
  case (ClickLoadMore cid)
  with assms show ?thesis by (auto simp: step_def later_clickLoadMore)
next
  case (RemoveColumn cid)
  with assms show ?thesis by (auto simp: step_def later_def removeColumn_def)
next
  case (AddColumn ty rnd)
  with assms show ?thesis by (auto simp: step_def later_def addColumn_def)
next
  case (SetQuery q)
  with assms show ?thesis by (auto simp: step_def later_def)
next
  case (Settle r resp)
  with assms show ?thesis by (auto simp: step_def later_settle)
qed

lemma run_cancelled:
  "run evs s = Inr t \<Longrightarrow> cancelled s r \<Longrightarrow> cancelled t r"
proof (induction evs arbitrary: s)
  case Nil
  then show ?case by simp
next
  case (Cons e evs)
  from Cons.prems(1) obtain s' where e: "step e s = Inr s'" and rest: "run evs s' = Inr t"
    by (auto split: sum.splits)
  from later_cancelled [OF later_step [OF e] Cons.prems(2)] have "cancelled s' r" .
  with rest show ?case by (rule Cons.IH)
qed

lemma second_refresh_cancels:
  assumes "length (reqs s) \<le> r" and "r < length (reqs (refreshAll s))"
  shows "cancelled (refreshAll (refreshAll s)) r"
proof -
  let ?s1 = "refreshAll s" and ?s2 = "refreshAll (refreshAll s)"
  from refreshAll_new [OF assms] obtain q where
    q: "reqs ?s1 ! r = Some q" and sg: "req_signal q = Some (length (ctls s))"
    by blast
  have r2: "r < length (reqs ?s2)"
    using assms(2) refreshAll_length [of ?s1] by simp
  have q2: "reqs ?s2 ! r = Some q"
    using refreshAll_old [OF assms(2)] q by simp
  have "ctls ?s2 = (ctls ?s1)[length (ctls s) := True] @ [False]"
    by (simp add: armed_def)
  moreover have "length (ctls s) < length (ctls ?s1)"
    by simp
  ultimately have "signal_aborted ?s2 (Some (length (ctls s)))"
    by (simp add: signal_aborted_def nth_append)
  with r2 q2 sg show ?thesis by (simp add: cancelled_def)
qed

lemma settle_cancelled:
  assumes "cancelled t r"
  shows "\<exists>t'. settle t r resp = Inr t' \<and> (\<forall>k. data_of t' k = data_of t k)
           \<and> settle t r resp = settle t r NetworkFailure"
proof (cases "reqs t ! r")
  case None
  then show ?thesis by (simp add: settle_idle)
next
  case (Some q)
  with assms have fl: "r < length (reqs t)" and ab: "signal_aborted t (req_signal q)"
    by (simp_all add: cancelled_def)
  let ?t = "t\<lparr>reqs := (reqs t)[r := None],
              store := set_error (store t) (req_col q) (catch_msg (kind_type (req_kind q)))\<rparr>"
  have "\<And>x. settle t r x = Inr ?t"
    using fl Some ab by (simp add: settle_failed await_fetch_aborted)
  moreover have "\<forall>k. data_of ?t k = data_of t k"
    by (simp add: data_of_def set_error_def spread_def split: option.splits)
  ultimately show ?thesis by simp
qed

text \<open>
  C2: let \<open>refreshAll\<close> be called (epoch N), and again before any of its requests
  has settled (epoch N+1). Then in every state reached afterwards by any events, a
  request of epoch N settles without changing the buffer, cursor or \<open>hasMore\<close> value of
  any column, and what the server answered makes no difference: the abort of the
  second \<open>refreshAll\<close> turns the completion into a failure, so no item of that response
  gets into a buffer.
\<close>

theorem stale_epoch_discard:
  assumes "run evs (refreshAll (refreshAll s)) = Inr t"
    and "length (reqs s) \<le> r" and "r < length (reqs (refreshAll s))"
  shows "\<exists>t'. settle t r resp = Inr t' \<and> (\<forall>k. data_of t' k = data_of t k)
           \<and> settle t r resp = settle t r NetworkFailure"
  using settle_cancelled [OF run_cancelled [OF assms(1) second_refresh_cancels [OF assms(2,3)]]]
  by blast

theorem stale_epoch_discard_witness:
  "length (reqs (ensureStore initial_state)) \<le> 0
   \<and> 0 < length (reqs (refreshAll (ensureStore initial_state)))
   \<and> (\<exists>t. run [Settle 2 page0_response]
              (refreshAll (refreshAll (ensureStore initial_state))) = Inr t
         \<and> (\<exists>t'. settle t 0 page1_response = Inr t' \<and> (\<forall>k. data_of t' k = data_of t k)))"
proof -
  let ?s = "ensureStore initial_state"
  let ?run = "run [Settle 2 page0_response] (refreshAll (refreshAll ?s))"
  have "\<not> isl ?run" by code_simp
  then obtain t where h1: "?run = Inr t"
    by (cases ?run) auto
  have h2: "length (reqs ?s) \<le> 0" by code_simp
  have h3: "0 < length (reqs (refreshAll ?s))" by code_simp
  from stale_epoch_discard [OF h1 h2 h3, of page1_response] h1 h2 h3
  show ?thesis by blast
qed

subsection \<open>Failure isolation of \<open>refreshAll\<close>\<close>

lemma in_flight_settled:
  assumes "settle u r0 resp = Inr u1"
  shows "in_flight u1 r q \<longleftrightarrow> in_flight u r q \<and> r \<noteq> r0"
  using settle_frame(5) [OF assms]
  by (auto simp: in_flight_def nth_update_cases split: if_splits)

lemma settle_total:
  assumes "all_refresh u"
  shows "\<exists>t. settle u r resp = Inr t"
  using assms
  by (intro settle_total_refresh) (auto simp: all_refresh_def in_flight_def)

lemma all_refresh_settled: "settle u r0 resp = Inr u1 \<Longrightarrow> all_refresh u \<Longrightarrow> all_refresh u1"
  by (auto simp: all_refresh_def in_flight_settled)

lemma one_per_column_settled:
  "settle u r0 resp = Inr u1 \<Longrightarrow> one_per_column u \<Longrightarrow> one_per_column u1"
  unfolding one_per_column_def in_flight_settled by blast

lemma settle_other_flight:
  assumes "settle u r0 resp = Inr u1" and "\<forall>q0. in_flight u r0 q0 \<longrightarrow> req_col q0 \<noteq> c"
  shows "store u1 c = store u c"
  using assms(1)
  by (rule settle_other) (use assms(2) in \<open>auto simp: in_flight_def\<close>)

lemma run_settles_quiet:
  assumes "all_refresh u" and "\<forall>r q. in_flight u r q \<longrightarrow> req_col q \<noteq> c"
  shows "\<exists>u'. run (settles rs) u = Inr u' \<and> store u' c = store u c"
  using assms
proof (induction rs arbitrary: u)
  case Nil
  then show ?case by (simp add: settles_def)
next
  case (Cons x rs)
  obtain r0 resp0 where x: "x = (r0, resp0)" by (cases x)
  from settle_total [OF Cons.prems(1)] obtain u1 where u1: "settle u r0 resp0 = Inr u1"
    by blast
  have st: "store u1 c = store u c"
    using u1 Cons.prems(2) by (intro settle_other_flight) auto
  have "\<exists>u'. run (settles rs) u1 = Inr u' \<and> store u' c = store u1 c"
  proof (rule Cons.IH)
    show "all_refresh u1" using u1 Cons.prems(1) by (rule all_refresh_settled)
    show "\<forall>r q. in_flight u1 r q \<longrightarrow> req_col q \<noteq> c"
      using Cons.prems(2) by (auto simp: in_flight_settled [OF u1])
  qed
  with st u1 x show ?case
    by (auto simp: settles_def step_def)
qed

lemma settle_agree:
  assumes "in_flight u r q" and "in_flight u1 r q"
    and st: "store u1 (req_col q) = store u (req_col q)" and ct: "ctls u1 = ctls u"
    and t1: "settle u1 r resp = Inr t1"
  shows "\<exists>t. settle u r resp = Inr t \<and> store t (req_col q) = store t1 (req_col q)"
proof -
  have af: "await_fetch u1 q resp = await_fetch u q resp"
    using ct by (rule await_fetch_ctls)
  have sp: "spread (store u1) (req_col q) = spread (store u) (req_col q)"
    by (simp add: spread_def st)
  have pv: "prevItems (store u1) (req_col q) (req_mode q) = prevItems (store u) (req_col q) (req_mode q)"
    by (simp add: prevItems_def st)
  show ?thesis
  proof (cases "await_fetch u q resp")
    case (Inl e)
    with assms af sp show ?thesis
      by (auto simp: settle_def in_flight_def Let_def set_error_def)
  next
    case (Inr f)
    with assms af sp pv show ?thesis
      by (cases f)
         (auto simp: settle_def in_flight_def Let_def split: sum.splits)
  qed
qed

lemma run_settles_column:
  assumes "all_refresh u" and "one_per_column u" and "in_flight u r q"
    and "distinct (map fst rs)" and "(r, resp) \<in> set rs"
  shows "\<exists>u' t. run (settles rs) u = Inr u' \<and> settle u r resp = Inr t
           \<and> store u' (req_col q) = store t (req_col q)"
  using assms
proof (induction rs arbitrary: u)
  case Nil
  then show ?case by simp
next
  case (Cons x rs)
  obtain r0 resp0 where x: "x = (r0, resp0)" by (cases x)
  from settle_total [OF Cons.prems(1)] obtain u1 where u1: "settle u r0 resp0 = Inr u1"
    by blast
  have ar1: "all_refresh u1" using u1 Cons.prems(1) by (rule all_refresh_settled)
  show ?case
  proof (cases "r0 = r")
    case True
    have "resp0 = resp"
    proof (rule ccontr)
      assume "resp0 \<noteq> resp"
      with Cons.prems(5) x True have "(r, resp) \<in> set rs" by auto
      then have "r \<in> fst ` set rs" by force
      with Cons.prems(4) x True show False by simp
    qed
    with u1 True have t: "settle u r resp = Inr u1" by simp
    have quiet: "\<forall>r' q'. in_flight u1 r' q' \<longrightarrow> req_col q' \<noteq> req_col q"
    proof (intro allI impI notI)
      fix r' q'
      assume f: "in_flight u1 r' q'" and same: "req_col q' = req_col q"
      from f have "in_flight u r' q'" and "r' \<noteq> r"
        by (simp_all add: in_flight_settled [OF t])
      with Cons.prems(2,3) same show False
        by (auto simp: one_per_column_def)
    qed
    from run_settles_quiet [OF ar1 quiet, where rs = rs] obtain u' where
      "run (settles rs) u1 = Inr u'" and "store u' (req_col q) = store u1 (req_col q)"
      by blast
    with t u1 x True show ?thesis
      by (auto simp: settles_def step_def)
  next
    case False
    with Cons.prems(5) x have mem: "(r, resp) \<in> set rs" by auto
    from Cons.prems(4) have dist: "distinct (map fst rs)" by simp
    have op1: "one_per_column u1" using u1 Cons.prems(2) by (rule one_per_column_settled)
    have f1: "in_flight u1 r q"
      using Cons.prems(3) False by (simp add: in_flight_settled [OF u1])
    from Cons.IH [OF ar1 op1 f1 dist mem] obtain u' t1 where
      run1: "run (settles rs) u1 = Inr u'" and t1: "settle u1 r resp = Inr t1"
      and eq1: "store u' (req_col q) = store t1 (req_col q)"
      by blast
    have st: "store u1 (req_col q) = store u (req_col q)"
    proof (rule settle_other_flight [OF u1], intro allI impI)
      fix q0
      assume "in_flight u r0 q0"
      with Cons.prems(2,3) False show "req_col q0 \<noteq> req_col q"
        by (auto simp: one_per_column_def)
    qed
    have ct: "ctls u1 = ctls u" using settle_frame(2) [OF u1] .
    from settle_agree [OF Cons.prems(3) f1 st ct t1] obtain t where
      "settle u r resp = Inr t" and "store t (req_col q) = store t1 (req_col q)"
      by blast
    with run1 eq1 u1 x show ?thesis
      by (auto simp: settles_def step_def)
  qed
qed

lemma idle_nth: "idle s \<Longrightarrow> r < length (reqs s) \<Longrightarrow> reqs s ! r = None"
  by (simp add: idle_def list_all_length)

lemma in_flight_refreshAll_new:
  assumes "idle s" and "in_flight (refreshAll s) r q"
  shows "length (reqs s) \<le> r"
proof (rule ccontr)
  assume "\<not> length (reqs s) \<le> r"
  then have r: "r < length (reqs s)" by simp
  from refreshAll_old [OF r] idle_nth [OF assms(1) r] assms(2) show False
    by (simp add: in_flight_def)
qed

lemma in_flight_refreshAll:
  assumes "idle s" and "in_flight (refreshAll s) r q"
  shows "req_col q \<in> col_id ` set (columns s)" and "req_mode q = Refresh"
    and "req_signal q = Some (length (ctls s))"
proof -
  from assms(2) have r: "r < length (reqs (refreshAll s))"
    and q: "reqs (refreshAll s) ! r = Some q"
    by (simp_all add: in_flight_def)
  from refreshAll_new [OF in_flight_refreshAll_new [OF assms] r] q
  show "req_col q \<in> col_id ` set (columns s)" and "req_mode q = Refresh"
    and "req_signal q = Some (length (ctls s))"
    by auto
qed

lemma all_refresh_refreshAll: "idle s \<Longrightarrow> all_refresh (refreshAll s)"
  by (auto simp: all_refresh_def dest: in_flight_refreshAll(2))

lemma distinct_started:
  assumes "distinct (map col_id cs)"
  shows "distinct (map (\<lambda>x. req_col (the x)) (concat (map (\<lambda>c. started s (col_id c) m) cs)))"
  using assms
proof (induction cs)
  case Nil
  then show ?case by simp
next
  case (Cons c cs)
  let ?rest = "concat (map (\<lambda>c. started s (col_id c) m) cs)"
  have rest: "req_col (the x) \<in> col_id ` set cs" if "x \<in> set ?rest" for x
  proof -
    from concat_started [OF that] obtain q where "x = Some q" "req_col q \<in> col_id ` set cs"
      by blast
    then show ?thesis by simp
  qed
  from Cons.prems have notin: "col_id c \<notin> col_id ` set cs" by simp
  from Cons have d: "distinct (map (\<lambda>x. req_col (the x)) ?rest)" by simp
  from started_cases [of s "col_id c" m] show ?case
  proof
    assume "started s (col_id c) m = []"
    with d show ?thesis by simp
  next
    assume "\<exists>q. started s (col_id c) m = [Some q] \<and> req_col q = col_id c \<and> req_mode q = m
       \<and> req_signal q = abortRef s \<and> req_kind q \<noteq> QuoteReq"
    then obtain q where q: "started s (col_id c) m = [Some q]" "req_col q = col_id c"
      by blast
    have "col_id c \<notin> (\<lambda>x. req_col (the x)) ` set ?rest"
    proof
      assume "col_id c \<in> (\<lambda>x. req_col (the x)) ` set ?rest"
      then obtain x where "x \<in> set ?rest" and "col_id c = req_col (the x)"
        by (rule imageE)
      with rest [of x] notin show False by simp
    qed
    with q d show ?thesis by simp
  qed
qed

lemma one_per_column_refreshAll:
  assumes "idle s" and "distinct (map col_id (columns s))"
  shows "one_per_column (refreshAll s)"
  unfolding one_per_column_def
proof (intro allI impI)
  fix r r' q q'
  assume f: "in_flight (refreshAll s) r q" and f': "in_flight (refreshAll s) r' q'"
    and same: "req_col q = req_col q'"
  let ?n = "length (reqs s)"
  let ?new = "concat (map (\<lambda>c. started (armed s) (col_id c) Refresh) (columns s))"
  let ?g = "\<lambda>x. req_col (the x)"
  from in_flight_refreshAll_new [OF assms(1) f] have n: "?n \<le> r" .
  from in_flight_refreshAll_new [OF assms(1) f'] have n': "?n \<le> r'" .
  from f n have i: "r - ?n < length ?new" and qi: "?new ! (r - ?n) = Some q"
    by (auto simp: in_flight_def refreshAll_reqs nth_append)
  from f' n' have i': "r' - ?n < length ?new" and qi': "?new ! (r' - ?n) = Some q'"
    by (auto simp: in_flight_def refreshAll_reqs nth_append)
  have d: "distinct (map ?g ?new)"
    using assms(2) by (rule distinct_started)
  have "map ?g ?new ! (r - ?n) = map ?g ?new ! (r' - ?n)"
    using i i' qi qi' same by simp
  with d i i' have "r - ?n = r' - ?n"
    by (simp add: nth_eq_iff_index_eq del: nth_map)
  with n n' show "r = r'" by simp
qed

lemma reset_column_cleared:
  "(case reset_column c p k of None \<Rightarrow> True | Some e \<Rightarrow> items e = Some [])"
  if "k = col_id c \<or> (case p k of None \<Rightarrow> True | Some e \<Rightarrow> items e = Some [])"
  using that
  by (auto simp: reset_column_def split: option.splits source_type.splits)

lemma fold_reset_cleared:
  "k \<in> col_id ` set cs \<or> (case p k of None \<Rightarrow> True | Some e \<Rightarrow> items e = Some [])
   \<Longrightarrow> (case fold reset_column cs p k of None \<Rightarrow> True | Some e \<Rightarrow> items e = Some [])"
proof (induction cs arbitrary: p)
  case Nil
  then show ?case by simp
next
  case (Cons c cs)
  show ?case
  proof (cases "k \<in> col_id ` set cs")
    case True
    then show ?thesis by (simp add: Cons.IH)
  next
    case False
    with Cons.prems
    have "k = col_id c \<or> (case p k of None \<Rightarrow> True | Some e \<Rightarrow> items e = Some [])"
      by auto
    then have "case reset_column c p k of None \<Rightarrow> True | Some e \<Rightarrow> items e = Some []"
      by (rule reset_column_cleared)
    then show ?thesis by (simp add: Cons.IH)
  qed
qed

lemma refreshAll_bucket:
  assumes "k \<in> col_id ` set (columns s)"
  shows "bucket (store (refreshAll s)) k = []"
proof -
  have "data_of (refreshAll s) k = data_of (armed s) k"
    by (simp add: refreshAll_armed)
  moreover have "case store (armed s) k of None \<Rightarrow> True | Some e \<Rightarrow> items e = Some []"
    using fold_reset_cleared [of k "columns s" "store s"] assms
    by (simp add: armed_def)
  ultimately show ?thesis
    by (auto simp: bucket_data data_of_def split: option.splits)
qed

text \<open>
  C1: let \<open>refreshAll\<close> start from a state with no request in flight and with distinct
  column ids, and let the requests it started settle in any order, each once. If the
  client of column A fails and the client of column B succeeds, then at the end B's
  buffer holds the items its client returned, B's error is cleared, A's error is set and
  A's buffer is empty, and both have stopped loading; the run never stops at an
  exception.
\<close>

theorem refreshAll_isolation:
  assumes "idle s" and "distinct (map col_id (columns s))"
    and "in_flight (refreshAll s) ra qa" and "in_flight (refreshAll s) rb qb"
    and "distinct (map fst rs)" and "(ra, respA) \<in> set rs" and "(rb, respB) \<in> set rs"
    and "await_fetch (refreshAll s) qa respA = Inl e"
    and "await_fetch (refreshAll s) qb respB = Inr f"
  shows "\<exists>t. run (settles rs) (refreshAll s) = Inr t
           \<and> items_of t (req_col qb) = Some (fetched_items f)
           \<and> error_of t (req_col qb) = [] \<and> \<not> loading_of t (req_col qb)
           \<and> error_of t (req_col qa) \<noteq> [] \<and> \<not> loading_of t (req_col qa)
           \<and> bucket (store t) (req_col qa) = []"
proof -
  let ?s1 = "refreshAll s"
  have ar: "all_refresh ?s1" using assms(1) by (rule all_refresh_refreshAll)
  have op: "one_per_column ?s1" using assms(1,2) by (rule one_per_column_refreshAll)
  from run_settles_column [OF ar op assms(4,5,7)] obtain t tb where
    run: "run (settles rs) ?s1 = Inr t" and tb: "settle ?s1 rb respB = Inr tb"
    and eqb: "store t (req_col qb) = store tb (req_col qb)"
    by blast
  from run_settles_column [OF ar op assms(3,5,6)] run obtain ta where
    ta: "settle ?s1 ra respA = Inr ta" and eqa: "store t (req_col qa) = store ta (req_col qa)"
    by auto
  from assms(4) have "rb < length (reqs ?s1)" "reqs ?s1 ! rb = Some qb"
    by (simp_all add: in_flight_def)
  from settle_refresh_ok [OF this in_flight_refreshAll(2) [OF assms(1,4)] assms(9)] tb
  have "items_of tb (req_col qb) = Some (fetched_items f)" "error_of tb (req_col qb) = []"
    "\<not> loading_of tb (req_col qb)"
    by auto
  with eqb have b: "items_of t (req_col qb) = Some (fetched_items f)"
    "error_of t (req_col qb) = []" "\<not> loading_of t (req_col qb)"
    by (simp_all add: items_of_def error_of_def loading_of_def)
  from assms(3) have fa: "ra < length (reqs ?s1)" "reqs ?s1 ! ra = Some qa"
    by (simp_all add: in_flight_def)
  let ?msg = "catch_msg (kind_type (req_kind qa))"
  from settle_failed [OF fa assms(8)] ta
  have ta_eq: "ta = ?s1\<lparr>reqs := (reqs ?s1)[ra := None],
                        store := set_error (store ?s1) (req_col qa) ?msg\<rparr>"
    by simp
  have "store ta (req_col qa) = Some ((spread (store ?s1) (req_col qa))\<lparr>loading := False, error := ?msg\<rparr>)"
    by (simp add: ta_eq set_error_def)
  with eqa have sa: "store t (req_col qa) = Some ((spread (store ?s1) (req_col qa))\<lparr>loading := False, error := ?msg\<rparr>)"
    by simp
  have a1: "error_of t (req_col qa) \<noteq> []" "\<not> loading_of t (req_col qa)"
    by (simp_all add: error_of_def loading_of_def sa catch_msg_nonempty)
  have "bucket (store t) (req_col qa) = bucket (store ?s1) (req_col qa)"
    by (simp add: bucket_def sa spread_def split: option.splits)
  also have "\<dots> = []"
    using in_flight_refreshAll(1) [OF assms(1,3)] by (rule refreshAll_bucket)
  finally have a2: "bucket (store t) (req_col qa) = []" .
  from run b a1 a2 show ?thesis by simp
qed

theorem refreshAll_isolation_witness:
  "idle (ensureStore initial_state)
   \<and> distinct (map col_id (columns (ensureStore initial_state)))
   \<and> in_flight (refreshAll (ensureStore initial_state)) 1 reddit_request
   \<and> in_flight (refreshAll (ensureStore initial_state)) 0 first_request
   \<and> await_fetch (refreshAll (ensureStore initial_state)) reddit_request NetworkFailure
       = Inl TypeError
   \<and> await_fetch (refreshAll (ensureStore initial_state)) first_request page0_response
       = Inr (HNRes page0_result)
   \<and> (\<exists>t. run (settles [(1, NetworkFailure), (0, page0_response)])
              (refreshAll (ensureStore initial_state)) = Inr t
         \<and> items_of t ''col_hn'' = Some [github_item]
         \<and> error_of t ''col_hn'' = []
         \<and> error_of t ''col_reddit'' \<noteq> []
         \<and> bucket (store t) ''col_reddit'' = [])"
proof -
  let ?s = "ensureStore initial_state"
  have h1: "idle ?s" by code_simp
  have h2: "distinct (map col_id (columns ?s))" by code_simp
  have h3: "in_flight (refreshAll ?s) 1 reddit_request" by code_simp
  have h4: "in_flight (refreshAll ?s) 0 first_request" by code_simp
  have h5: "distinct (map fst [(1::nat, NetworkFailure), (0, page0_response)])" by simp
  have h6: "(1, NetworkFailure) \<in> set [(1::nat, NetworkFailure), (0, page0_response)]" by simp
  have h7: "(0, page0_response) \<in> set [(1::nat, NetworkFailure), (0, page0_response)]" by simp
  have h8: "await_fetch (refreshAll ?s) reddit_request NetworkFailure = Inl TypeError"
    by code_simp
  have h9: "await_fetch (refreshAll ?s) first_request page0_response = Inr (HNRes page0_result)"
    by code_simp
  have c1: "req_col first_request = ''col_hn''" by (simp add: first_request_def)
  have c2: "req_col reddit_request = ''col_reddit''" by (simp add: reddit_request_def)
  have c3: "fetched_items (HNRes page0_result) = [github_item]"
    by (simp add: fetched_items_def page0_result_def)
  from refreshAll_isolation [OF h1 h2 h3 h4 h5 h6 h7 h8 h9]
  have "\<exists>t. run (settles [(1, NetworkFailure), (0, page0_response)]) (refreshAll ?s) = Inr t
         \<and> items_of t ''col_hn'' = Some [github_item]
         \<and> error_of t ''col_hn'' = []
         \<and> error_of t ''col_reddit'' \<noteq> []
         \<and> bucket (store t) ''col_reddit'' = []"
    unfolding c1 c2 c3 by blast
  with h1 h2 h3 h4 h8 h9 show ?thesis by blast
qed

end
